theory Spec2Isabelle
  imports Main "HOL-Library.Word" "HOL-Library.Multiset" "HOL-Library.AList"
begin

section \<open>statexec: a shallow embedding of \<open>main.go\<close>\<close>

text \<open>
  The development follows \<open>src/main.go\<close>. Go's \<open>int64\<close> and \<open>uint64\<close> are 64-bit
  words (\<open>+\<close> wraps, \<open>sint\<close> reads an \<open>int64\<close>, \<open>uint\<close> a \<open>uint64\<close>), Go's \<open>int\<close> is
  \<open>int\<close> (only the values 0, 1, 2 and exit codes occur), a Go \<open>string\<close> is a \<open>string\<close>.
  A Go \<open>map[string]string\<close> is an association list with distinct keys that holds the
  entries of the map; \<open>m[k] = v\<close> is \<open>AList.update k v m\<close>, and a \<open>range\<close> over the map
  yields the entries in an order the runtime chooses (\<open>range_order\<close> below).
  \<open>os.Exit\<close> and \<open>panic\<close> end the process; they are the values of \<open>fatal\<close>.
\<close>

type_synonym int64 = "64 word"
type_synonym uint64 = "64 word"

datatype fatal = OsExit int | GoPanic

subsection \<open>Strings\<close>

text \<open>The character class \<open>[a-zA-Z0-9]\<close> of the regular expression in \<open>addLabel\<close>.\<close>

definition is_alnum :: "char \<Rightarrow> bool" where
  "is_alnum c =
     (let n = (of_char c :: nat)
      in (48 \<le> n \<and> n \<le> 57) \<or> (65 \<le> n \<and> n \<le> 90) \<or> (97 \<le> n \<and> n \<le> 122))"

text \<open>
  \<open>regexp.MustCompile(`[^a-zA-Z0-9]`).ReplaceAllString(key, "_")\<close>: every element of the
  key outside the class becomes one underscore. An element of the list stands for one
  rune of the Go string, which is exact for ASCII keys.
\<close>

definition safe_key :: "string \<Rightarrow> string" where
  "safe_key key = map (\<lambda>c. if is_alnum c then c else CHR ''_'') key"

text \<open>\<open>strings.ToLower\<close>, on the ASCII letters (the only letters a safe key holds).\<close>

definition ToLower_char :: "char \<Rightarrow> char" where
  "ToLower_char c =
     (case map_of (zip ''ABCDEFGHIJKLMNOPQRSTUVWXYZ'' ''abcdefghijklmnopqrstuvwxyz'') c of
        Some l \<Rightarrow> l
      | None \<Rightarrow> c)"

definition ToLower :: "string \<Rightarrow> string" where
  "ToLower s = map ToLower_char s"

text \<open>\<open>strconv.Itoa\<close> and the verb \<open>%d\<close> of \<open>fmt.Sprintf\<close>: decimal digits, a sign for a
  negative number.\<close>

definition digit_char :: "nat \<Rightarrow> char" where
  "digit_char d = ''0123456789'' ! d"

function dec_nat :: "nat \<Rightarrow> string" where
  "dec_nat n =
     (if n < 10 then [digit_char n] else dec_nat (n div 10) @ [digit_char (n mod 10)])"
  by pat_completeness auto
termination
  by (relation "measure id") auto

definition Itoa :: "int \<Rightarrow> string" where
  "Itoa i = (if i < 0 then CHR ''-'' # dec_nat (nat (- i)) else dec_nat (nat i))"

text \<open>\<open>strings.Join\<close>.\<close>

fun Join :: "string list \<Rightarrow> string \<Rightarrow> string" where
  "Join [] sep = []"
| "Join [x] sep = x"
| "Join (x # y # ys) sep = x @ sep @ Join (y # ys) sep"

subsection \<open>Extra labels: \<open>addLabel\<close> (main.go, lines 331-347)\<close>

definition forbiddenKeys :: "string list" where
  "forbiddenKeys = [''instance'', ''job'', ''cpu'', ''mode'', ''interface'']"

text \<open>
  The loop over \<open>forbiddenKeys\<close> exits the process with status 1 at the first forbidden
  key that equals \<open>safeKey\<close>; otherwise the label is stored under the lower-cased safe key.
\<close>

definition addLabel ::
  "string \<Rightarrow> string \<Rightarrow> (string \<times> string) list \<Rightarrow> fatal + (string \<times> string) list" where
  "addLabel key v extraLabels =
     (let safeKey = safe_key key
      in if safeKey \<in> set forbiddenKeys then Inl (OsExit 1)
         else Inr (AList.update (ToLower safeKey) v extraLabels))"

lemma not_alnum_underscore: "\<not> is_alnum CHR ''_''"
  by (simp add: is_alnum_def)

lemma safe_key_eq_alnum:
  "list_all is_alnum k \<Longrightarrow> safe_key key = k \<longleftrightarrow> key = k"
proof (induction key arbitrary: k)
  case Nil
  then show ?case by (auto simp: safe_key_def)
next
  case (Cons c cs)
  show ?case
  proof (cases k)
    case Nil
    then show ?thesis by (simp add: safe_key_def)
  next
    case (Cons d ds)
    with Cons.prems have d: "is_alnum d" and ds: "list_all is_alnum ds"
      by simp_all
    from Cons.IH [OF ds] have "map (\<lambda>c. if is_alnum c then c else CHR ''_'') cs = ds \<longleftrightarrow> cs = ds"
      by (simp add: safe_key_def)
    with d not_alnum_underscore Cons show ?thesis
      by (auto simp: safe_key_def)
  qed
qed

lemma forbiddenKeys_alnum: "k \<in> set forbiddenKeys \<Longrightarrow> list_all is_alnum k"
  by (auto simp: forbiddenKeys_def is_alnum_def)

lemma safe_key_forbidden: "safe_key key \<in> set forbiddenKeys \<longleftrightarrow> key \<in> set forbiddenKeys"
proof
  assume a: "safe_key key \<in> set forbiddenKeys"
  then have "list_all is_alnum (safe_key key)"
    by (rule forbiddenKeys_alnum)
  then have "key = safe_key key"
    using safe_key_eq_alnum [of "safe_key key" key] by simp
  with a show "key \<in> set forbiddenKeys" by simp
next
  assume a: "key \<in> set forbiddenKeys"
  then have "list_all is_alnum key"
    by (rule forbiddenKeys_alnum)
  then have "safe_key key = key"
    using safe_key_eq_alnum [of key key] by simp
  with a show "safe_key key \<in> set forbiddenKeys" by simp
qed

text \<open>
  Claim C1. The claim asks that a key is rejected exactly when its normalised,
  lower-cased form is one of the six names instance, job, cpu, mode, interface, disk.
  The code rejects a key exactly when the key itself is one of the five names of
  \<open>forbiddenKeys\<close>: \<open>disk\<close> is missing from the list although lines 755-757 render a
  \<open>disk\<close> label, and the comparison is made before \<open>strings.ToLower\<close>, so \<open>Instance\<close>
  passes the check and is then stored under the key \<open>instance\<close>.
\<close>

theorem addLabel_misses_disk_and_case:
  "(addLabel key v extraLabels = Inl (OsExit 1)) = (key \<in> set forbiddenKeys)
   \<and> addLabel ''disk'' v extraLabels = Inr (AList.update ''disk'' v extraLabels)
   \<and> addLabel ''Instance'' v extraLabels = Inr (AList.update ''instance'' v extraLabels)"
proof -
  have 1: "(addLabel key v extraLabels = Inl (OsExit 1)) = (key \<in> set forbiddenKeys)"
    by (simp add: addLabel_def Let_def safe_key_forbidden)
  have "safe_key ''disk'' = ''disk''"
    by (simp add: safe_key_def is_alnum_def)
  then have 2: "addLabel ''disk'' v extraLabels = Inr (AList.update ''disk'' v extraLabels)"
    by (simp add: addLabel_def forbiddenKeys_def ToLower_def ToLower_char_def)
  have "safe_key ''Instance'' = ''Instance''"
    by (simp add: safe_key_def is_alnum_def)
  then have 3: "addLabel ''Instance'' v extraLabels
      = Inr (AList.update ''instance'' v extraLabels)"
    by (simp add: addLabel_def forbiddenKeys_def ToLower_def ToLower_char_def)
  from 1 2 3 show ?thesis by simp
qed

section \<open>The server role: \<open>waitForHttpSyncToStartCommand\<close> (main.go, lines 389-464)\<close>

text \<open>
  The function's local variables \<open>cmdStarted\<close>, \<open>cmdFinished\<close> and \<open>wg\<close> are shared by
  the two request handlers and the goroutines they spawn. The state below adds what the
  scheduler and the handlers depend on besides: how many goroutines of \<open>/start\<close> have
  not yet run their first statement (\<open>spawned\<close>), how many are inside \<open>startCommand\<close>
  (\<open>inCommand\<close>), whether \<open>cmd.Start()\<close> has succeeded, so that \<open>cmd.Process\<close> is not nil
  (\<open>childStarted\<close>), how many goroutines of \<open>/stop\<close> are blocked in \<open>wg.Wait()\<close>
  (\<open>waiters\<close>), and whether the process still serves requests (\<open>serving\<close>).
\<close>

record server =
  cmdStarted :: bool
  cmdFinished :: bool
  wg :: nat
  spawned :: nat
  inCommand :: nat
  childStarted :: bool
  waiters :: nat
  serving :: bool

definition init_server :: server where
  "init_server =
     \<lparr>cmdStarted = False, cmdFinished = False, wg = 0, spawned = 0, inCommand = 0,
      childStarted = False, waiters = 0, serving = True\<rparr>"

text \<open>
  What the client of a request gets: a response with a status, or no response when the
  handler panics before anything is written (\<open>net/http\<close> recovers the panic and closes
  the connection).
\<close>

datatype response = Status int | Aborted

definition StatusCreated :: int where "StatusCreated = 201"
definition StatusAccepted :: int where "StatusAccepted = 202"
definition StatusNoContent :: int where "StatusNoContent = 204"
definition StatusConflict :: int where "StatusConflict = 409"
definition StatusPreconditionFailed :: int where "StatusPreconditionFailed = 412"

text \<open>
  The handler of \<open>/start\<close> (lines 404-428), under the mutex. It reads \<open>cmdStarted\<close> and
  writes neither flag: on acceptance it adds one to \<open>wg\<close> and spawns the goroutine that
  will set \<open>cmdStarted\<close>.
\<close>

definition handle_start :: "server \<Rightarrow> response \<times> server" where
  "handle_start s =
     (if cmdStarted s then (Status StatusConflict, s)
      else (Status StatusCreated, s\<lparr>wg := wg s + 1, spawned := spawned s + 1\<rparr>))"

text \<open>
  The handler of \<open>/stop\<close> (lines 430-458), which does not take the mutex. When the
  command is started and not finished it calls \<open>cmd.Process.Signal\<close> between
  \<open>WriteHeader\<close> and the first write of the body: on a nil \<open>cmd.Process\<close> this panics, no
  response is sent and the rest of the handler is not run. The interrupt itself changes
  none of the variables. Otherwise, when the command was started, the handler spawns a
  goroutine that waits for \<open>wg\<close> and then shuts the server down.
\<close>

definition handle_stop :: "server \<Rightarrow> response \<times> server" where
  "handle_stop s =
     (if cmdStarted s
      then (if cmdFinished s then (Status StatusNoContent, s\<lparr>waiters := waiters s + 1\<rparr>)
            else if childStarted s then (Status StatusAccepted, s\<lparr>waiters := waiters s + 1\<rparr>)
            else (Aborted, s))
      else (Status StatusPreconditionFailed, s))"

text \<open>
  The goroutine of \<open>/start\<close> (lines 414-423): \<open>go_begin\<close> is \<open>cmdStarted = true\<close> and the
  call of \<open>startCommand\<close>; \<open>go_child\<close> is the success of \<open>cmd.Start()\<close> inside it;
  \<open>go_end\<close> is the return of \<open>startCommand\<close>, \<open>cmdFinished = true\<close>, \<open>wg.Done()\<close> and,
  when \<open>waitForStop\<close> is false, \<open>os.Exit(0)\<close>.
\<close>

definition go_begin :: "server \<Rightarrow> server" where
  "go_begin s = s\<lparr>cmdStarted := True, spawned := spawned s - 1, inCommand := inCommand s + 1\<rparr>"

definition go_child :: "server \<Rightarrow> server" where
  "go_child s = s\<lparr>childStarted := True\<rparr>"

definition go_end :: "bool \<Rightarrow> server \<Rightarrow> server" where
  "go_end waitForStop s =
     s\<lparr>cmdFinished := True, wg := wg s - 1, inCommand := inCommand s - 1,
       serving := (waitForStop \<and> serving s)\<rparr>"

text \<open>
  One step of the server. \<open>ReqStart\<close> and \<open>ReqStop\<close> are requests served by the
  handlers; \<open>GoBegin\<close>, \<open>GoChild\<close> and \<open>GoEnd\<close> are the steps of a goroutine of
  \<open>/start\<close> (\<open>cmd.Start()\<close> succeeds once for a command, and \<open>startCommand\<close> returns
  only after it); \<open>GoFatal\<close> is an \<open>os.Exit(1)\<close> or a panic inside \<open>startCommand\<close>;
  \<open>Shutdown\<close> is a goroutine of \<open>/stop\<close> that leaves \<open>wg.Wait()\<close> and calls
  \<open>server.Shutdown\<close>, after which \<open>ListenAndServe\<close> returns and the process ends. A step
  that is not enabled in a state has no successor (\<open>None\<close>).
\<close>

datatype server_event = ReqStart | ReqStop | GoBegin | GoChild | GoEnd | GoFatal | Shutdown

fun server_step ::
  "bool \<Rightarrow> server_event \<Rightarrow> server \<Rightarrow> (response option \<times> server) option" where
  "server_step waitForStop ReqStart s =
     (if serving s then Some (Some (fst (handle_start s)), snd (handle_start s)) else None)"
| "server_step waitForStop ReqStop s =
     (if serving s then Some (Some (fst (handle_stop s)), snd (handle_stop s)) else None)"
| "server_step waitForStop GoBegin s =
     (if serving s \<and> 0 < spawned s then Some (None, go_begin s) else None)"
| "server_step waitForStop GoChild s =
     (if serving s \<and> 0 < inCommand s \<and> \<not> childStarted s then Some (None, go_child s)
      else None)"
| "server_step waitForStop GoEnd s =
     (if serving s \<and> 0 < inCommand s \<and> childStarted s then Some (None, go_end waitForStop s)
      else None)"
| "server_step waitForStop GoFatal s =
     (if serving s \<and> 0 < inCommand s then Some (None, s\<lparr>serving := False\<rparr>) else None)"
| "server_step waitForStop Shutdown s =
     (if serving s \<and> 0 < waiters s \<and> wg s = 0 then Some (None, s\<lparr>serving := False\<rparr>)
      else None)"

text \<open>A run of the server: the responses, in order, and the last state.\<close>

fun server_run ::
  "bool \<Rightarrow> server_event list \<Rightarrow> server \<Rightarrow> (response list \<times> server) option" where
  "server_run waitForStop [] s = Some ([], s)"
| "server_run waitForStop (e # es) s =
     (case server_step waitForStop e s of
        None \<Rightarrow> None
      | Some (r, s') \<Rightarrow>
          (case server_run waitForStop es s' of
             None \<Rightarrow> None
           | Some (rs, s'') \<Rightarrow> Some ((case r of None \<Rightarrow> rs | Some c \<Rightarrow> c # rs), s'')))"

definition responses :: "bool \<Rightarrow> server_event list \<Rightarrow> response list option" where
  "responses waitForStop es = map_option fst (server_run waitForStop es init_server)"

lemmas server_defs =
  responses_def init_server_def handle_start_def handle_stop_def go_begin_def go_child_def
  go_end_def StatusCreated_def StatusAccepted_def StatusNoContent_def StatusConflict_def
  StatusPreconditionFailed_def

lemma server_step_flags:
  "server_step w e s = Some (r, s') \<Longrightarrow>
     (cmdStarted s \<longrightarrow> cmdStarted s') \<and> (cmdFinished s \<longrightarrow> cmdFinished s')"
  by (cases e) (auto simp: handle_start_def handle_stop_def go_begin_def go_child_def
      go_end_def split: if_splits)

text \<open>
  Claim C4, as stated, fails: the handler of \<open>/stop\<close> only signals the child, and
  \<open>cmdFinished\<close> is set by the goroutine after \<open>startCommand\<close> has returned. A second
  stop that arrives while the command is still running is answered 202 again, not 204.
\<close>

theorem start_stop_stop_counterexample:
  "responses True [ReqStart, GoBegin, GoChild, ReqStop, ReqStop]
     = Some [Status 201, Status 202, Status 202]
   \<and> responses True [ReqStart, GoBegin, GoChild, ReqStop, ReqStop]
     \<noteq> Some [Status 201, Status 202, Status 204]"
  by (simp add: server_defs)

text \<open>
  Claim C4, amended. The response to a request is a function of the two flags and of
  whether the child has been started; the handlers change neither flag, and a rejected
  start changes nothing. Once the goroutine of the first start has set \<open>cmdStarted\<close>, a
  second start is answered 409; a stop before any start is answered 412; a stop while
  the child runs is answered 202, and a stop after \<open>startCommand\<close> has returned (and
  before the server is shut down) is answered 204.
\<close>

theorem server_state_machine:
  "responses w [ReqStart, GoBegin, ReqStart] = Some [Status 201, Status 409]
   \<and> responses w [ReqStop] = Some [Status 412]
   \<and> responses True [ReqStart, GoBegin, GoChild, ReqStop, GoEnd, ReqStop]
       = Some [Status 201, Status 202, Status 204]
   \<and> fst (handle_start s) = (if cmdStarted s then Status 409 else Status 201)
   \<and> fst (handle_stop s)
       = (if cmdStarted s
          then if cmdFinished s then Status 204
               else if childStarted s then Status 202 else Aborted
          else Status 412)
   \<and> handle_start (s\<lparr>cmdStarted := True\<rparr>) = (Status 409, s\<lparr>cmdStarted := True\<rparr>)
   \<and> cmdStarted (snd (handle_start s)) = cmdStarted s
   \<and> cmdFinished (snd (handle_start s)) = cmdFinished s
   \<and> cmdStarted (snd (handle_stop s)) = cmdStarted s
   \<and> cmdFinished (snd (handle_stop s)) = cmdFinished s"
  by (simp add: server_defs)

section \<open>Snapshots, annotations and the configuration\<close>

text \<open>
  The records of \<open>main.go\<close> (lines 59-75) and of the package \<open>collectors\<close>. A
  \<open>float64\<close> is a value of the type parameter \<open>'f\<close>: the program only stores such values
  and prints them with \<open>%f\<close>. \<open>CpuTimePerMode\<close> is a Go map, held as an association
  list.
\<close>

record 'f CpuMetrics =
  Cpu :: string
  CpuTimePerMode :: "(string \<times> 'f) list"

record 'f MemoryMetrics =
  Total :: uint64
  Available :: uint64
  Used :: uint64
  Free :: uint64
  Buffers :: uint64
  Cached :: uint64
  UsedPercent :: 'f

record NetworkMetrics =
  Interface :: string
  SentTotalBytes :: uint64
  RecvTotalBytes :: uint64

record DiskMetrics =
  Device :: string
  ReadBytesTotal :: uint64
  WriteBytesTotal :: uint64

record 'f InstantMetric =
  cmdStatus :: int
  cpu :: "'f CpuMetrics list"
  memory :: "'f MemoryMetrics"
  network :: "NetworkMetrics list"
  disk :: "DiskMetrics list"
  msSinceStart :: int64
  collectDuration :: int64
  timestamp :: int64

record GrafanaAnnotation =
  Time :: int64
  TimeEnd :: int64
  Text :: string
  Tags :: "string list"

text \<open>
  What one call of \<open>collectInstantMetrics\<close> reads from outside the program: the results
  of the four collectors and the duration measured by \<open>time.Since\<close>.
\<close>

record 'f reading =
  read_cpu :: "'f CpuMetrics list"
  read_memory :: "'f MemoryMetrics"
  read_network :: "NetworkMetrics list"
  read_disk :: "DiskMetrics list"
  read_duration :: int64

text \<open>
  The global variables that are fixed once the options are parsed (lines 21-44). The
  variable \<open>instance\<close> is the field \<open>instanceName\<close>. The two delays only pass time; the
  order of events below stands for the time that passes.
\<close>

record config =
  version :: string
  jobName :: string
  metricsStartTimeOverride :: int64
  instanceName :: string
  role :: string
  extraLabels :: "(string \<times> string) list"

definition CommandStatusPending :: int where "CommandStatusPending = 0"
definition CommandStatusRunning :: int where "CommandStatusRunning = 1"
definition CommandStatusDone :: int where "CommandStatusDone = 2"

section \<open>The execution controller and the sampling loop\<close>

text \<open>
  \<open>startCommand\<close> (lines 466-567) runs concurrently with the goroutine of
  \<open>startMetricCollectLoop\<close> (lines 570-592) and with the goroutine that forwards an
  interrupt (lines 503-509). They share the global variables \<open>metricsStartTime\<close>,
  \<open>commandState\<close>, \<open>metricStore\<close> and \<open>annotationStore\<close>, and the channel \<open>quit\<close>. The
  state holds the globals, the local variables of the two functions, and where each of
  them stands. An execution is a sequence of steps of the three goroutines in any
  order; the events carry what a step reads from outside: the wall clock, the
  collectors, the child process, the file system.

  No lock protects the globals. A call of \<open>collectInstantMetrics\<close> reads
  \<open>commandState\<close>, runs the four collectors and only then appends to \<open>metricStore\<close>, so
  the other goroutine may write \<open>commandState\<close> and append its own snapshot in between.
  Each call is therefore two steps: the one that reads the globals, and the one that
  appends. Go does not fix whether the variable \<open>commandState\<close> of line 625 is read
  before or after the collectors of lines 626-629 are called; the read is a step of its
  own, at any place between the start of the call and the append, and both orders are
  executions. The statement \<open>metricStore = append(metricStore, instantMetric)\<close> of
  line 636 is one step.
\<close>

datatype ctl_pc =
    CtlInit | CtlStarting | CtlStartCollect | CtlWaiting | CtlDoneCollect
  | CtlStopping | CtlJoin | CtlReturned

datatype loop_pc =
    LoopIdle | LoopSpawned | LoopFirstCollect | LoopSelect | LoopTickCollect | LoopReturned

datatype proc_status = Alive | Exited int | Panicked

text \<open>
  What \<open>cmd.Wait()\<close> leaves behind: a process state with an exit code (the error of
  \<open>Wait\<close> is an \<open>*exec.ExitError\<close> when the code is not 0), or no process state at all
  when the process could not be waited on. \<open>ProcessState.ExitCode()\<close> is \<open>-1\<close> on a nil
  process state.
\<close>

datatype wait_result = ExitedWith int | WaitFailed

fun ExitCode :: "wait_result \<Rightarrow> int" where
  "ExitCode (ExitedWith c) = c"
| "ExitCode WaitFailed = - 1"

text \<open>
  The globals; then the locals of \<open>startCommand\<close>: \<open>realStartTime\<close>, the variable
  \<open>commandStartedAtTime\<close> or \<open>commandFinishedAtTime\<close> (\<open>ctl_elapsed\<close>),
  \<open>cmd.ProcessState\<close>, and what its running call of \<open>collectInstantMetrics\<close> has read
  (\<open>ctl_read\<close>: the values of \<open>commandState\<close> and \<open>metricsStartTime\<close>); then the locals
  of \<open>startMetricCollectLoop\<close>, with what its running call has read (\<open>loop_read\<close>).
\<close>

record 'f sys =
  metricsStartTime :: int64
  commandState :: int
  metricStore :: "'f InstantMetric list"
  annotationStore :: "GrafanaAnnotation list"
  realStartTime :: int64
  ctl_elapsed :: int64
  processState :: wait_result
  ctl_read :: "int \<times> int64"
  ctl :: ctl_pc
  sigHandled :: bool
  loop_msSinceStart :: int64
  loop_read :: "int \<times> int64"
  stopGatheringNextIteration :: bool
  lp :: loop_pc
  proc :: proc_status

definition init_sys :: "'f sys" where
  "init_sys =
     \<lparr>metricsStartTime = 0, commandState = CommandStatusPending, metricStore = [],
      annotationStore = [], realStartTime = 0, ctl_elapsed = 0, processState = WaitFailed,
      ctl_read = (0, 0), ctl = CtlInit, sigHandled = False,
      loop_msSinceStart = 0, loop_read = (0, 0), stopGatheringNextIteration = False,
      lp = LoopIdle, proc = Alive\<rparr>"

text \<open>
  \<open>collectInstantMetrics\<close> (lines 620-637). \<open>collectInstantMetrics_read\<close> is what the
  call reads from the globals (lines 622 and 625). \<open>snapshot\<close> is the \<open>InstantMetric\<close>
  built from these two values, the argument of the call and the reading of the
  collectors; \<open>collectInstantMetrics_append\<close> appends it to \<open>metricStore\<close> (line 636). A
  collector that fails panics (\<open>None\<close> is such a reading).
\<close>

definition snapshot :: "int \<Rightarrow> int64 \<Rightarrow> int64 \<Rightarrow> 'f reading \<Rightarrow> 'f InstantMetric" where
  "snapshot state startTime ms r =
     \<lparr>cmdStatus = state, cpu = read_cpu r, memory = read_memory r,
      network = read_network r, disk = read_disk r, msSinceStart = ms,
      collectDuration = read_duration r, timestamp = startTime + ms\<rparr>"

definition collectInstantMetrics_read :: "'f sys \<Rightarrow> int \<times> int64" where
  "collectInstantMetrics_read s = (commandState s, metricsStartTime s)"

definition collectInstantMetrics_append ::
  "int \<times> int64 \<Rightarrow> int64 \<Rightarrow> 'f reading option \<Rightarrow> 'f sys \<Rightarrow> 'f sys" where
  "collectInstantMetrics_append rd ms ro s =
     (case ro of
        None \<Rightarrow> s\<lparr>proc := Panicked\<rparr>
      | Some r \<Rightarrow> s\<lparr>metricStore := metricStore s @ [snapshot (fst rd) (snd rd) ms r]\<rparr>)"

text \<open>The two annotations of \<open>startCommand\<close> (lines 523-534 and 544-555).\<close>

definition start_annotation :: "config \<Rightarrow> int64 \<Rightarrow> GrafanaAnnotation" where
  "start_annotation cfg t =
     \<lparr>Time = t, TimeEnd = t, Text = ''Command started'',
      Tags = [''statexec'', ''start'', ''instance='' @ instanceName cfg,
              ''job='' @ jobName cfg, ''role='' @ role cfg]\<rparr>"

definition done_annotation :: "config \<Rightarrow> int64 \<Rightarrow> int \<Rightarrow> GrafanaAnnotation" where
  "done_annotation cfg t code =
     \<lparr>Time = t, TimeEnd = t, Text = ''Command done with status '' @ Itoa code,
      Tags = [''statexec'', ''done'', ''instance='' @ instanceName cfg,
              ''job='' @ jobName cfg, ''role='' @ role cfg]\<rparr>"

subsection \<open>The blocks of \<open>startCommand\<close>\<close>

text \<open>
  Lines 470-492: \<open>now\<close> is \<open>realStartTime.UnixMilli()\<close>; the goroutine of the sampling
  loop is spawned. The sleep of \<open>delayBeforeCommand\<close> seconds follows.
\<close>

definition ctl_begin :: "config \<Rightarrow> int64 \<Rightarrow> 'f sys \<Rightarrow> 'f sys" where
  "ctl_begin cfg now s =
     s\<lparr>realStartTime := now,
       metricsStartTime :=
         (if metricsStartTimeOverride cfg \<noteq> - 1 then metricsStartTimeOverride cfg else now),
       lp := LoopSpawned, ctl := CtlStarting\<rparr>"

text \<open>
  Lines 500-520, up to the reads of \<open>collectInstantMetrics\<close>: the interrupt handler is
  installed and \<open>cmd.Start()\<close> is called; when it fails the process exits with status 1.
  \<open>now\<close> is \<open>time.Now().UnixMilli()\<close> of line 519. The controller is the only writer of
  \<open>commandState\<close> and, after line 476, of \<open>metricsStartTime\<close>, so its call reads what it
  has just written, wherever the reads are placed.
\<close>

definition ctl_start :: "bool \<Rightarrow> int64 \<Rightarrow> 'f sys \<Rightarrow> 'f sys" where
  "ctl_start started now s =
     (if \<not> started then s\<lparr>proc := Exited 1\<rparr>
      else
        let s1 = s\<lparr>commandState := CommandStatusRunning,
                   ctl_elapsed := now - realStartTime s\<rparr>
        in s1\<lparr>ctl_read := collectInstantMetrics_read s1, ctl := CtlStartCollect\<rparr>)"

text \<open>
  Lines 520-534, from the append of \<open>collectInstantMetrics\<close>: the snapshot and the
  annotation of the start.
\<close>

definition ctl_start_collected :: "config \<Rightarrow> 'f reading option \<Rightarrow> 'f sys \<Rightarrow> 'f sys" where
  "ctl_start_collected cfg ro s =
     (let s1 = collectInstantMetrics_append (ctl_read s) (ctl_elapsed s) ro s
      in if proc s1 \<noteq> Alive then s1
         else s1\<lparr>annotationStore :=
                   annotationStore s1 @ [start_annotation cfg (ctl_elapsed s)],
                 ctl := CtlWaiting\<rparr>)"

text \<open>
  Lines 537-541, up to the reads of \<open>collectInstantMetrics\<close>: \<open>cmd.Wait()\<close> has returned
  with \<open>w\<close>; its error is discarded (\<open>_ = cmd.Wait()\<close>). \<open>now\<close> is
  \<open>time.Now().UnixMilli()\<close> of line 540.
\<close>

definition ctl_done :: "wait_result \<Rightarrow> int64 \<Rightarrow> 'f sys \<Rightarrow> 'f sys" where
  "ctl_done w now s =
     (let s1 = s\<lparr>processState := w, commandState := CommandStatusDone,
                 ctl_elapsed := now - realStartTime s\<rparr>
      in s1\<lparr>ctl_read := collectInstantMetrics_read s1, ctl := CtlDoneCollect\<rparr>)"

text \<open>
  Lines 541-555, from the append of \<open>collectInstantMetrics\<close>: the snapshot and the
  annotation of the exit. The sleep of \<open>delayAfterCommand\<close> seconds follows.
\<close>

definition ctl_done_collected :: "config \<Rightarrow> 'f reading option \<Rightarrow> 'f sys \<Rightarrow> 'f sys" where
  "ctl_done_collected cfg ro s =
     (let s1 = collectInstantMetrics_append (ctl_read s) (ctl_elapsed s) ro s
      in if proc s1 \<noteq> Alive then s1
         else s1\<lparr>annotationStore :=
                   annotationStore s1 @
                     [done_annotation cfg (ctl_elapsed s) (ExitCode (processState s))],
                 ctl := CtlStopping\<rparr>)"

text \<open>
  Lines 503-509: the goroutine receives one interrupt and forwards it to the child.
  \<open>cmd.Process.Signal\<close> succeeds while the child has not been waited for; afterwards it
  returns an error and the goroutine panics.
\<close>

definition sig_forward :: "'f sys \<Rightarrow> 'f sys" where
  "sig_forward s =
     (if ctl s = CtlStartCollect \<or> ctl s = CtlWaiting then s\<lparr>sigHandled := True\<rparr>
      else s\<lparr>sigHandled := True, proc := Panicked\<rparr>)"

subsection \<open>The blocks of \<open>startMetricCollectLoop\<close>\<close>

text \<open>
  Lines 571-576, up to the reads of \<open>collectInstantMetrics\<close>: the ticker is created and
  the first call is made with 0.
\<close>

definition loop_first :: "'f sys \<Rightarrow> 'f sys" where
  "loop_first s =
     (let s1 = s\<lparr>loop_msSinceStart := 0\<rparr>
      in s1\<lparr>loop_read := collectInstantMetrics_read s1, lp := LoopFirstCollect\<rparr>)"

text \<open>Lines 576-578, from the append: the first snapshot; the loop enters the \<open>select\<close>.\<close>

definition loop_first_collected :: "'f reading option \<Rightarrow> 'f sys \<Rightarrow> 'f sys" where
  "loop_first_collected ro s =
     (let s1 = collectInstantMetrics_append (loop_read s) (loop_msSinceStart s) ro s
      in if proc s1 \<noteq> Alive then s1
         else s1\<lparr>stopGatheringNextIteration := False, lp := LoopSelect\<rparr>)"

text \<open>
  Lines 581-583, the case \<open><-ticker.C\<close> of the \<open>select\<close>, up to the reads of
  \<open>collectInstantMetrics\<close>. The value received from the ticker is discarded.
\<close>

definition loop_tick :: "'f sys \<Rightarrow> 'f sys" where
  "loop_tick s =
     (let s1 = s\<lparr>loop_msSinceStart := loop_msSinceStart s + 1000\<rparr>
      in s1\<lparr>loop_read := collectInstantMetrics_read s1, lp := LoopTickCollect\<rparr>)"

text \<open>
  Lines 583-587, from the append. When the stop flag is set, \<open>writeResultToFile\<close> is
  called and the loop returns; \<open>written\<close> tells whether the file could be opened and
  written (otherwise \<open>writeResultToFile\<close> exits with status 1).
\<close>

definition loop_tick_collected :: "'f reading option \<Rightarrow> bool \<Rightarrow> 'f sys \<Rightarrow> 'f sys" where
  "loop_tick_collected ro written s =
     (let s1 = collectInstantMetrics_append (loop_read s) (loop_msSinceStart s) ro s
      in if proc s1 \<noteq> Alive then s1
         else if stopGatheringNextIteration s1
              then (if written then s1\<lparr>lp := LoopReturned\<rparr> else s1\<lparr>proc := Exited 1\<rparr>)
              else s1\<lparr>lp := LoopSelect\<rparr>)"

text \<open>
  Lines 588-589 with line 595: \<open>quit\<close> is unbuffered, so the send of
  \<open>stopCollectingMetrics\<close> and the case \<open><-quit\<close> of the \<open>select\<close> are one step; the
  controller goes on to \<open>wg.Wait()\<close>.
\<close>

definition quit_rendezvous :: "'f sys \<Rightarrow> 'f sys" where
  "quit_rendezvous s = s\<lparr>stopGatheringNextIteration := True, ctl := CtlJoin\<rparr>"

subsection \<open>Steps and executions\<close>

text \<open>
  \<open>LoopFirst\<close>, \<open>Tick\<close>, \<open>CmdStart\<close> and \<open>CmdExit\<close> are the steps that end with the reads of
  a call of \<open>collectInstantMetrics\<close>; \<open>FirstSnapshot\<close>, \<open>TickSnapshot\<close>, \<open>StartSnapshot\<close>
  and \<open>ExitSnapshot\<close> are the steps that begin with its append and carry the reading
  of the collectors.
\<close>

datatype 'f event =
    Begin int64
  | LoopFirst
  | FirstSnapshot "'f reading option"
  | Tick
  | TickSnapshot "'f reading option" bool
  | CmdStart bool int64
  | StartSnapshot "'f reading option"
  | CmdExit wait_result int64
  | ExitSnapshot "'f reading option"
  | Sigint
  | Quit
  | Return

text \<open>
  A step is enabled only in a live process and only where the two functions stand at
  the block: \<open>Tick\<close> and \<open>Quit\<close> need the loop in its \<open>select\<close>, \<open>Quit\<close> needs the
  controller at line 563, \<open>Return\<close> (line 566, \<open>wg.Wait()\<close>) needs the loop to have
  returned. An interrupt is a step once the child has been started and while the
  forwarding goroutine has not yet received one.
\<close>

fun step :: "config \<Rightarrow> 'f event \<Rightarrow> 'f sys \<Rightarrow> 'f sys option" where
  "step cfg (Begin now) s =
     (if proc s = Alive \<and> ctl s = CtlInit then Some (ctl_begin cfg now s) else None)"
| "step cfg LoopFirst s =
     (if proc s = Alive \<and> lp s = LoopSpawned then Some (loop_first s) else None)"
| "step cfg (FirstSnapshot ro) s =
     (if proc s = Alive \<and> lp s = LoopFirstCollect then Some (loop_first_collected ro s)
      else None)"
| "step cfg Tick s =
     (if proc s = Alive \<and> lp s = LoopSelect then Some (loop_tick s) else None)"
| "step cfg (TickSnapshot ro written) s =
     (if proc s = Alive \<and> lp s = LoopTickCollect then Some (loop_tick_collected ro written s)
      else None)"
| "step cfg (CmdStart started now) s =
     (if proc s = Alive \<and> ctl s = CtlStarting then Some (ctl_start started now s) else None)"
| "step cfg (StartSnapshot ro) s =
     (if proc s = Alive \<and> ctl s = CtlStartCollect then Some (ctl_start_collected cfg ro s)
      else None)"
| "step cfg (CmdExit w now) s =
     (if proc s = Alive \<and> ctl s = CtlWaiting then Some (ctl_done w now s) else None)"
| "step cfg (ExitSnapshot ro) s =
     (if proc s = Alive \<and> ctl s = CtlDoneCollect then Some (ctl_done_collected cfg ro s)
      else None)"
| "step cfg Sigint s =
     (if proc s = Alive \<and> \<not> sigHandled s
         \<and> ctl s \<in> {CtlStartCollect, CtlWaiting, CtlDoneCollect, CtlStopping, CtlJoin}
      then Some (sig_forward s) else None)"
| "step cfg Quit s =
     (if proc s = Alive \<and> ctl s = CtlStopping \<and> lp s = LoopSelect
      then Some (quit_rendezvous s) else None)"
| "step cfg Return s =
     (if proc s = Alive \<and> ctl s = CtlJoin \<and> lp s = LoopReturned
      then Some (s\<lparr>ctl := CtlReturned\<rparr>) else None)"

fun run :: "config \<Rightarrow> 'f event list \<Rightarrow> 'f sys \<Rightarrow> 'f sys option" where
  "run cfg [] s = Some s"
| "run cfg (e # es) s = (case step cfg e s of None \<Rightarrow> None | Some s' \<Rightarrow> run cfg es s')"

text \<open>
  The number of timer ticks the loop has received in a sequence of events, and the
  number of snapshots it has appended for them.
\<close>

fun is_tick :: "'f event \<Rightarrow> bool" where
  "is_tick Tick = True"
| "is_tick e = False"

definition count_ticks :: "'f event list \<Rightarrow> nat" where
  "count_ticks es = length (filter is_tick es)"



text \<open>The readings of the wall clock (\<open>UnixMilli\<close>) the controller makes, in order.\<close>

fun clock_readings :: "'f event list \<Rightarrow> int64 list" where
  "clock_readings [] = []"
| "clock_readings (Begin now # es) = now # clock_readings es"
| "clock_readings (CmdStart started now # es) = now # clock_readings es"
| "clock_readings (CmdExit w now # es) = now # clock_readings es"
| "clock_readings (e # es) = clock_readings es"

text \<open>The results of \<open>cmd.Wait()\<close> in a sequence of events.\<close>

fun wait_results :: "'f event list \<Rightarrow> wait_result list" where
  "wait_results [] = []"
| "wait_results (CmdExit w now # es) = w # wait_results es"
| "wait_results (e # es) = wait_results es"

subsection \<open>What an enabled step does\<close>

text \<open>
  For each event, the successor of a step that leaves the process alive, written out.
\<close>

lemma snapshot_sel [simp]:
  "cmdStatus (snapshot st t0 ms r) = st"
  "msSinceStart (snapshot st t0 ms r) = ms"
  "timestamp (snapshot st t0 ms r) = t0 + ms"
  by (simp_all add: snapshot_def)

lemma run_snoc:
  "run cfg (es @ [e]) s = (case run cfg es s of None \<Rightarrow> None | Some s' \<Rightarrow> step cfg e s')"
  by (induction es arbitrary: s) (auto split: option.splits)

lemma step_alive: "step cfg e s = Some s' \<Longrightarrow> proc s = Alive"
  by (cases e) (auto split: if_splits)

lemma step_Begin:
  "step cfg (Begin now) s = Some s' \<Longrightarrow>
     ctl s = CtlInit \<and>
     s' = s\<lparr>realStartTime := now,
            metricsStartTime :=
              (if metricsStartTimeOverride cfg \<noteq> - 1 then metricsStartTimeOverride cfg else now),
            lp := LoopSpawned, ctl := CtlStarting\<rparr>"
  by (auto simp: ctl_begin_def split: if_splits)

lemma step_LoopFirst:
  "step cfg LoopFirst s = Some s' \<Longrightarrow>
     lp s = LoopSpawned \<and>
     s' = s\<lparr>loop_msSinceStart := 0, loop_read := (commandState s, metricsStartTime s),
            lp := LoopFirstCollect\<rparr>"
  by (auto simp: loop_first_def collectInstantMetrics_read_def Let_def split: if_splits)

lemma step_FirstSnapshot:
  "step cfg (FirstSnapshot ro) s = Some s' \<Longrightarrow> proc s' = Alive \<Longrightarrow>
     lp s = LoopFirstCollect \<and>
     (\<exists>r. ro = Some r \<and>
       s' = s\<lparr>metricStore := metricStore s @
                [snapshot (fst (loop_read s)) (snd (loop_read s)) (loop_msSinceStart s) r],
              stopGatheringNextIteration := False, lp := LoopSelect\<rparr>)"
  by (cases ro)
     (auto simp: loop_first_collected_def collectInstantMetrics_append_def Let_def
       split: if_splits)

lemma step_Tick:
  "step cfg Tick s = Some s' \<Longrightarrow>
     lp s = LoopSelect \<and>
     s' = s\<lparr>loop_msSinceStart := loop_msSinceStart s + 1000,
            loop_read := (commandState s, metricsStartTime s), lp := LoopTickCollect\<rparr>"
  by (auto simp: loop_tick_def collectInstantMetrics_read_def Let_def split: if_splits)

lemma step_TickSnapshot:
  "step cfg (TickSnapshot ro written) s = Some s' \<Longrightarrow> proc s' = Alive \<Longrightarrow>
     lp s = LoopTickCollect \<and> (stopGatheringNextIteration s \<longrightarrow> written) \<and>
     (\<exists>r. ro = Some r \<and>
       s' = s\<lparr>metricStore := metricStore s @
                [snapshot (fst (loop_read s)) (snd (loop_read s)) (loop_msSinceStart s) r],
              lp := (if stopGatheringNextIteration s then LoopReturned else LoopSelect)\<rparr>)"
  by (cases ro)
     (auto simp: loop_tick_collected_def collectInstantMetrics_append_def Let_def
       split: if_splits)

lemma step_CmdStart:
  "step cfg (CmdStart started now) s = Some s' \<Longrightarrow> proc s' = Alive \<Longrightarrow>
     ctl s = CtlStarting \<and> started \<and>
     s' = s\<lparr>commandState := 1, ctl_elapsed := now - realStartTime s,
            ctl_read := (1, metricsStartTime s), ctl := CtlStartCollect\<rparr>"
  by (auto simp: ctl_start_def collectInstantMetrics_read_def Let_def CommandStatusRunning_def
       split: if_splits)

lemma step_StartSnapshot:
  "step cfg (StartSnapshot ro) s = Some s' \<Longrightarrow> proc s' = Alive \<Longrightarrow>
     ctl s = CtlStartCollect \<and>
     (\<exists>r. ro = Some r \<and>
       s' = s\<lparr>metricStore := metricStore s @
                [snapshot (fst (ctl_read s)) (snd (ctl_read s)) (ctl_elapsed s) r],
              annotationStore := annotationStore s @ [start_annotation cfg (ctl_elapsed s)],
              ctl := CtlWaiting\<rparr>)"
  by (cases ro)
     (auto simp: ctl_start_collected_def collectInstantMetrics_append_def Let_def
       split: if_splits)

lemma step_CmdExit:
  "step cfg (CmdExit w now) s = Some s' \<Longrightarrow>
     ctl s = CtlWaiting \<and>
     s' = s\<lparr>processState := w, commandState := 2, ctl_elapsed := now - realStartTime s,
            ctl_read := (2, metricsStartTime s), ctl := CtlDoneCollect\<rparr>"
  by (auto simp: ctl_done_def collectInstantMetrics_read_def Let_def CommandStatusDone_def
       split: if_splits)

lemma step_ExitSnapshot:
  "step cfg (ExitSnapshot ro) s = Some s' \<Longrightarrow> proc s' = Alive \<Longrightarrow>
     ctl s = CtlDoneCollect \<and>
     (\<exists>r. ro = Some r \<and>
       s' = s\<lparr>metricStore := metricStore s @
                [snapshot (fst (ctl_read s)) (snd (ctl_read s)) (ctl_elapsed s) r],
              annotationStore := annotationStore s @
                [done_annotation cfg (ctl_elapsed s) (ExitCode (processState s))],
              ctl := CtlStopping\<rparr>)"
  by (cases ro)
     (auto simp: ctl_done_collected_def collectInstantMetrics_append_def Let_def
       split: if_splits)

lemma step_Sigint:
  "step cfg Sigint s = Some s' \<Longrightarrow> proc s' = Alive \<Longrightarrow>
     (ctl s = CtlStartCollect \<or> ctl s = CtlWaiting) \<and> s' = s\<lparr>sigHandled := True\<rparr>"
  by (auto simp: sig_forward_def split: if_splits)

lemma step_Quit:
  "step cfg Quit s = Some s' \<Longrightarrow>
     ctl s = CtlStopping \<and> lp s = LoopSelect \<and>
     s' = s\<lparr>stopGatheringNextIteration := True, ctl := CtlJoin\<rparr>"
  by (auto simp: quit_rendezvous_def split: if_splits)

lemma step_Return:
  "step cfg Return s = Some s' \<Longrightarrow>
     ctl s = CtlJoin \<and> lp s = LoopReturned \<and> s' = s\<lparr>ctl := CtlReturned\<rparr>"
  by (auto split: if_splits)

lemma step_alive_cases
  [consumes 2, case_names Begin LoopFirst FirstSnapshot Tick TickSnapshot CmdStart
     StartSnapshot CmdExit ExitSnapshot Sigint Quit Return]:
  assumes "step cfg e s = Some s'" and "proc s' = Alive"
  obtains
    now where "e = Begin now" and "ctl s = CtlInit"
      and "s' = s\<lparr>realStartTime := now,
            metricsStartTime :=
              (if metricsStartTimeOverride cfg \<noteq> - 1 then metricsStartTimeOverride cfg else now),
            lp := LoopSpawned, ctl := CtlStarting\<rparr>"
  | "e = LoopFirst" and "lp s = LoopSpawned"
      and "s' = s\<lparr>loop_msSinceStart := 0, loop_read := (commandState s, metricsStartTime s),
            lp := LoopFirstCollect\<rparr>"
  | r where "e = FirstSnapshot (Some r)" and "lp s = LoopFirstCollect"
      and "s' = s\<lparr>metricStore := metricStore s @
                [snapshot (fst (loop_read s)) (snd (loop_read s)) (loop_msSinceStart s) r],
              stopGatheringNextIteration := False, lp := LoopSelect\<rparr>"
  | "e = Tick" and "lp s = LoopSelect"
      and "s' = s\<lparr>loop_msSinceStart := loop_msSinceStart s + 1000,
            loop_read := (commandState s, metricsStartTime s), lp := LoopTickCollect\<rparr>"
  | r written where "e = TickSnapshot (Some r) written" and "lp s = LoopTickCollect"
      and "stopGatheringNextIteration s \<longrightarrow> written"
      and "s' = s\<lparr>metricStore := metricStore s @
                [snapshot (fst (loop_read s)) (snd (loop_read s)) (loop_msSinceStart s) r],
              lp := (if stopGatheringNextIteration s then LoopReturned else LoopSelect)\<rparr>"
  | now where "e = CmdStart True now" and "ctl s = CtlStarting"
      and "s' = s\<lparr>commandState := 1, ctl_elapsed := now - realStartTime s,
            ctl_read := (1, metricsStartTime s), ctl := CtlStartCollect\<rparr>"
  | r where "e = StartSnapshot (Some r)" and "ctl s = CtlStartCollect"
      and "s' = s\<lparr>metricStore := metricStore s @
                [snapshot (fst (ctl_read s)) (snd (ctl_read s)) (ctl_elapsed s) r],
              annotationStore := annotationStore s @ [start_annotation cfg (ctl_elapsed s)],
              ctl := CtlWaiting\<rparr>"
  | w now where "e = CmdExit w now" and "ctl s = CtlWaiting"
      and "s' = s\<lparr>processState := w, commandState := 2,
            ctl_elapsed := now - realStartTime s,
            ctl_read := (2, metricsStartTime s), ctl := CtlDoneCollect\<rparr>"
  | r where "e = ExitSnapshot (Some r)" and "ctl s = CtlDoneCollect"
      and "s' = s\<lparr>metricStore := metricStore s @
                [snapshot (fst (ctl_read s)) (snd (ctl_read s)) (ctl_elapsed s) r],
              annotationStore := annotationStore s @
                [done_annotation cfg (ctl_elapsed s) (ExitCode (processState s))],
              ctl := CtlStopping\<rparr>"
  | "e = Sigint" and "ctl s = CtlStartCollect \<or> ctl s = CtlWaiting"
      and "s' = s\<lparr>sigHandled := True\<rparr>"
  | "e = Quit" and "ctl s = CtlStopping" and "lp s = LoopSelect"
      and "s' = s\<lparr>stopGatheringNextIteration := True, ctl := CtlJoin\<rparr>"
  | "e = Return" and "ctl s = CtlJoin" and "lp s = LoopReturned"
      and "s' = s\<lparr>ctl := CtlReturned\<rparr>"
proof (cases e)
  case (Begin now)
  with assms step_Begin [of cfg now s s'] that(1) show ?thesis by blast
next
  case LoopFirst
  with assms step_LoopFirst [of cfg s s'] that(2) show ?thesis by blast
next
  case (FirstSnapshot ro)
  with assms step_FirstSnapshot [of cfg ro s s'] that(3) show ?thesis by blast
next
  case Tick
  with assms step_Tick [of cfg s s'] that(4) show ?thesis by blast
next
  case (TickSnapshot ro written)
  with assms step_TickSnapshot [of cfg ro written s s'] that(5) show ?thesis by blast
next
  case (CmdStart started now)
  with assms step_CmdStart [of cfg started now s s'] that(6) show ?thesis by blast
next
  case (StartSnapshot ro)
  with assms step_StartSnapshot [of cfg ro s s'] that(7) show ?thesis by blast
next
  case (CmdExit w now)
  with assms step_CmdExit [of cfg w now s s'] that(8) show ?thesis by blast
next
  case (ExitSnapshot ro)
  with assms step_ExitSnapshot [of cfg ro s s'] that(9) show ?thesis by blast
next
  case Sigint
  with assms step_Sigint [of cfg s s'] that(10) show ?thesis by blast
next
  case Quit
  with assms step_Quit [of cfg s s'] that(11) show ?thesis by blast
next
  case Return
  with assms step_Return [of cfg s s'] that(12) show ?thesis by blast
qed

subsection \<open>Invariants of an execution\<close>

text \<open>
  \<open>ctl_state\<close> is the value of \<open>commandState\<close> at each place of the controller,
  \<open>ctl_snaps\<close> and \<open>loop_snaps\<close> are the numbers of snapshots the controller and the
  loop have appended, apart from those of the timer ticks, at each of their places;
  \<open>loop_pending\<close> is 1 where the loop has received a tick and not yet appended its
  snapshot.
\<close>

fun ctl_state :: "ctl_pc \<Rightarrow> int" where
  "ctl_state CtlInit = 0"
| "ctl_state CtlStarting = 0"
| "ctl_state CtlStartCollect = 1"
| "ctl_state CtlWaiting = 1"
| "ctl_state CtlDoneCollect = 2"
| "ctl_state CtlStopping = 2"
| "ctl_state CtlJoin = 2"
| "ctl_state CtlReturned = 2"

fun ctl_snaps :: "ctl_pc \<Rightarrow> nat" where
  "ctl_snaps CtlInit = 0"
| "ctl_snaps CtlStarting = 0"
| "ctl_snaps CtlStartCollect = 0"
| "ctl_snaps CtlWaiting = 1"
| "ctl_snaps CtlDoneCollect = 1"
| "ctl_snaps CtlStopping = 2"
| "ctl_snaps CtlJoin = 2"
| "ctl_snaps CtlReturned = 2"

fun loop_snaps :: "loop_pc \<Rightarrow> nat" where
  "loop_snaps LoopIdle = 0"
| "loop_snaps LoopSpawned = 0"
| "loop_snaps LoopFirstCollect = 0"
| "loop_snaps LoopSelect = 1"
| "loop_snaps LoopTickCollect = 1"
| "loop_snaps LoopReturned = 1"

fun loop_pending :: "loop_pc \<Rightarrow> nat" where
  "loop_pending LoopTickCollect = 1"
| "loop_pending l = 0"

fun loop_started :: "loop_pc \<Rightarrow> bool" where
  "loop_started LoopIdle = False"
| "loop_started LoopSpawned = False"
| "loop_started LoopFirstCollect = False"
| "loop_started l = True"

definition ctl_inv :: "'f sys \<Rightarrow> bool" where
  "ctl_inv s \<longleftrightarrow>
     (ctl s = CtlInit \<longleftrightarrow> lp s = LoopIdle)
     \<and> commandState s = ctl_state (ctl s)
     \<and> (stopGatheringNextIteration s \<longleftrightarrow> ctl s = CtlJoin \<or> ctl s = CtlReturned)
     \<and> (ctl s = CtlJoin \<or> ctl s = CtlReturned \<longrightarrow> loop_started (lp s))
     \<and> (ctl s = CtlReturned \<longrightarrow> lp s = LoopReturned)
     \<and> (lp s = LoopReturned \<longrightarrow> stopGatheringNextIteration s)
     \<and> (\<not> loop_started (lp s) \<longrightarrow> loop_msSinceStart s = 0)
     \<and> (ctl s = CtlStartCollect \<or> ctl s = CtlDoneCollect \<longrightarrow>
          ctl_read s = (commandState s, metricsStartTime s))
     \<and> (lp s = LoopFirstCollect \<or> lp s = LoopTickCollect \<longrightarrow>
          0 \<le> fst (loop_read s) \<and> fst (loop_read s) \<le> commandState s
          \<and> snd (loop_read s) = metricsStartTime s)
     \<and> (lp s = LoopTickCollect \<and> stopGatheringNextIteration s \<longrightarrow> fst (loop_read s) = 2)"

lemma ctl_state_range [simp]: "0 \<le> ctl_state c" "ctl_state c \<le> 2"
  by (cases c; simp)+

lemma ctl_inv_step:
  assumes "ctl_inv s" and st: "step cfg e s = Some s'" and al: "proc s' = Alive"
  shows "ctl_inv s'"
  using st al assms
  by (cases rule: step_alive_cases) (clarsimp simp: ctl_inv_def; fastforce?)+

lemma ctl_inv_init: "ctl_inv init_sys"
  by (simp add: ctl_inv_def init_sys_def CommandStatusPending_def)

definition store_inv :: "'f sys \<Rightarrow> bool" where
  "store_inv s \<longleftrightarrow>
     (lp s = LoopReturned \<longrightarrow>
          metricStore s \<noteq> [] \<and> cmdStatus (last (metricStore s)) = 2
          \<and> msSinceStart (last (metricStore s)) = loop_msSinceStart s
          \<and> timestamp (last (metricStore s)) = metricsStartTime s + loop_msSinceStart s)
     \<and> (\<forall>m \<in> set (metricStore s). 0 \<le> cmdStatus m \<and> cmdStatus m \<le> commandState s)
     \<and> (loop_started (lp s) \<longrightarrow>
          (\<exists>m \<in> set (metricStore s). msSinceStart m = 0 \<and> timestamp m = metricsStartTime s))"

lemma store_inv_init: "store_inv init_sys"
  by (simp add: store_inv_def init_sys_def CommandStatusPending_def)

lemma store_inv_step:
  assumes ci: "ctl_inv s" and "store_inv s"
    and st: "step cfg e s = Some s'" and al: "proc s' = Alive"
  shows "store_inv s'"
  using st al assms
  by (cases rule: step_alive_cases)
     (clarsimp simp: store_inv_def ctl_inv_def; fastforce?)+

definition first_inv :: "'f sys \<Rightarrow> bool" where
  "first_inv s \<longleftrightarrow>
     (ctl s = CtlInit \<or> ctl s = CtlStarting \<or> ctl s = CtlStartCollect \<or> metricStore s \<noteq> [])
     \<and> (metricStore s \<noteq> [] \<longrightarrow> cmdStatus (hd (metricStore s)) \<le> 1)"

lemma first_inv_init: "first_inv init_sys"
  by (simp add: first_inv_def init_sys_def)

lemma first_inv_step:
  assumes ci: "ctl_inv s" and "first_inv s"
    and st: "step cfg e s = Some s'" and al: "proc s' = Alive"
  shows "first_inv s'"
  using st al assms
  by (cases rule: step_alive_cases)
     (cases "metricStore s"; clarsimp simp: first_inv_def ctl_inv_def; fastforce?)+

lemma count_ticks_snoc: "count_ticks (es @ [e]) = count_ticks es + (if is_tick e then 1 else 0)"
  by (simp add: count_ticks_def)

lemma count_ticks_append: "count_ticks (es @ fs) = count_ticks es + count_ticks fs"
  by (simp add: count_ticks_def)

lemma clock_readings_append: "clock_readings (es @ fs) = clock_readings es @ clock_readings fs"
  by (induction es rule: clock_readings.induct) simp_all

lemma wait_results_append: "wait_results (es @ fs) = wait_results es @ wait_results fs"
  by (induction es rule: wait_results.induct) simp_all

definition count_inv :: "'f event list \<Rightarrow> 'f sys \<Rightarrow> bool" where
  "count_inv es s \<longleftrightarrow>
     loop_msSinceStart s = 1000 * of_nat (count_ticks es)
     \<and> length (metricStore s) + loop_pending (lp s)
         = count_ticks es + loop_snaps (lp s) + ctl_snaps (ctl s)
     \<and> (lp s = LoopTickCollect \<or> lp s = LoopReturned \<longrightarrow> 0 < count_ticks es)"

definition annot_inv :: "config \<Rightarrow> 'f event list \<Rightarrow> 'f sys \<Rightarrow> bool" where
  "annot_inv cfg es s \<longleftrightarrow>
     (ctl s = CtlInit \<longrightarrow>
        clock_readings es = [] \<and> wait_results es = [] \<and> annotationStore s = [])
     \<and> (ctl s = CtlStarting \<longrightarrow>
          clock_readings es = [realStartTime s] \<and> wait_results es = []
          \<and> annotationStore s = [])
     \<and> (ctl s = CtlStartCollect \<longrightarrow>
          clock_readings es = [realStartTime s, realStartTime s + ctl_elapsed s]
          \<and> wait_results es = [] \<and> annotationStore s = [])
     \<and> (ctl s = CtlWaiting \<longrightarrow>
          (\<exists>t1. clock_readings es = [realStartTime s, t1] \<and> wait_results es = []
            \<and> annotationStore s = [start_annotation cfg (t1 - realStartTime s)]))
     \<and> (ctl s = CtlDoneCollect \<longrightarrow>
          (\<exists>t1. clock_readings es = [realStartTime s, t1, realStartTime s + ctl_elapsed s]
            \<and> wait_results es = [processState s]
            \<and> annotationStore s = [start_annotation cfg (t1 - realStartTime s)]))
     \<and> (ctl s = CtlStopping \<or> ctl s = CtlJoin \<or> ctl s = CtlReturned \<longrightarrow>
          (\<exists>t1 t2 w. clock_readings es = [realStartTime s, t1, t2] \<and> wait_results es = [w]
            \<and> annotationStore s =
                [start_annotation cfg (t1 - realStartTime s),
                 done_annotation cfg (t2 - realStartTime s) (ExitCode w)]))"

lemma count_inv_step:
  assumes ci: "ctl_inv s" and "count_inv es s"
    and st: "step cfg e s = Some s'" and al: "proc s' = Alive"
  shows "count_inv (es @ [e]) s'"
  using st al assms
  by (cases rule: step_alive_cases)
     (clarsimp simp: count_inv_def ctl_inv_def count_ticks_snoc)+

lemma annot_inv_step:
  assumes "annot_inv cfg es s" and st: "step cfg e s = Some s'" and al: "proc s' = Alive"
  shows "annot_inv cfg (es @ [e]) s'"
  using st al assms
  by (cases rule: step_alive_cases)
     (clarsimp simp: annot_inv_def clock_readings_append wait_results_append; fastforce?)+

subsection \<open>Executions from the initial state\<close>




definition reach_inv :: "config \<Rightarrow> 'f event list \<Rightarrow> 'f sys \<Rightarrow> bool" where
  "reach_inv cfg es s \<longleftrightarrow>
     ctl_inv s \<and> store_inv s \<and> first_inv s \<and> count_inv es s \<and> annot_inv cfg es s"

lemma count_inv_init: "count_inv [] init_sys"
  by (simp add: count_inv_def init_sys_def count_ticks_def)

lemma annot_inv_init: "annot_inv cfg [] init_sys"
  by (simp add: annot_inv_def init_sys_def)

lemma reach_inv_init: "reach_inv cfg [] init_sys"
  by (simp add: reach_inv_def ctl_inv_init store_inv_init first_inv_init count_inv_init
      annot_inv_init)

lemma reach_inv_run:
  "run cfg es init_sys = Some s \<Longrightarrow> proc s = Alive \<Longrightarrow> reach_inv cfg es s"
proof (induction es arbitrary: s rule: rev_induct)
  case Nil
  then show ?case by (simp add: reach_inv_init)
next
  case (snoc e es)
  from snoc.prems(1) obtain s0 where r: "run cfg es init_sys = Some s0"
    and st: "step cfg e s0 = Some s"
    by (auto simp: run_snoc split: option.splits)
  from st have "proc s0 = Alive" by (rule step_alive)
  with snoc.IH r have i: "reach_inv cfg es s0" by simp
  from i have a: "ctl_inv s0" and b: "store_inv s0" and c: "first_inv s0"
    and d: "count_inv es s0" and f: "annot_inv cfg es s0"
    by (simp_all add: reach_inv_def)
  note al = snoc.prems(2)
  from ctl_inv_step [OF a st al] store_inv_step [OF a b st al] first_inv_step [OF a c st al]
    count_inv_step [OF a d st al] annot_inv_step [OF f st al]
  show ?case by (simp add: reach_inv_def)
qed

subsection \<open>Example executions\<close>

text \<open>
  A command that runs for two seconds with both delays zero, started at the wall-clock
  time 5000 ms: the loop takes its first snapshot, the child starts, one timer tick
  passes, the child exits at 7000 ms, the controller asks the loop to stop, the next
  timer tick is the last one, and \<open>startCommand\<close> returns. The readings are empty.
\<close>

definition example_config :: config where
  "example_config =
     \<lparr>version = ''dev'', jobName = ''statexec'', metricsStartTimeOverride = - 1,
      instanceName = ''sleep'', role = ''standalone'', extraLabels = []\<rparr>"

definition example_reading :: "unit reading" where
  "example_reading =
     \<lparr>read_cpu = [],
      read_memory = \<lparr>Total = 0, Available = 0, Used = 0, Free = 0, Buffers = 0, Cached = 0,
                     UsedPercent = ()\<rparr>,
      read_network = [], read_disk = [], read_duration = 0\<rparr>"

definition two_second_run :: "unit event list" where
  "two_second_run =
     [Begin 5000, LoopFirst, FirstSnapshot (Some example_reading),
      CmdStart True 5000, StartSnapshot (Some example_reading),
      Tick, TickSnapshot (Some example_reading) True,
      CmdExit (ExitedWith 0) 7000, ExitSnapshot (Some example_reading),
      Quit, Tick, TickSnapshot (Some example_reading) True, Return]"

text \<open>
  A child that exits at once, 4 ms after the start of \<open>startCommand\<close>, while the first
  call of \<open>collectInstantMetrics\<close> in the loop is still running: in the first
  execution the loop has read \<open>commandState\<close> before the child started, in the second
  one it reads it after the child has exited. In both, the loop appends its first
  snapshot after the controller has appended the one of the start.
\<close>

definition early_read_run :: "unit event list" where
  "early_read_run =
     [Begin 5000, LoopFirst, CmdStart True 5002, StartSnapshot (Some example_reading),
      FirstSnapshot (Some example_reading),
      CmdExit (ExitedWith 0) 5004, ExitSnapshot (Some example_reading),
      Quit, Tick, TickSnapshot (Some example_reading) True, Return]"

definition late_read_run :: "unit event list" where
  "late_read_run =
     [Begin 5000, CmdStart True 5002, StartSnapshot (Some example_reading),
      CmdExit (ExitedWith 0) 5004, LoopFirst, FirstSnapshot (Some example_reading),
      ExitSnapshot (Some example_reading),
      Quit, Tick, TickSnapshot (Some example_reading) True, Return]"

lemmas step_defs =
  ctl_begin_def ctl_start_def ctl_start_collected_def ctl_done_def ctl_done_collected_def
  sig_forward_def loop_first_def loop_first_collected_def loop_tick_def
  loop_tick_collected_def quit_rendezvous_def
  collectInstantMetrics_read_def collectInstantMetrics_append_def
  CommandStatusPending_def CommandStatusRunning_def CommandStatusDone_def

lemmas example_defs = example_config_def example_reading_def two_second_run_def init_sys_def

lemma interleaved_snapshots:
  "map_option (\<lambda>s. (ctl s, proc s, map (\<lambda>m. (sint (msSinceStart m), cmdStatus m)) (metricStore s)))
      (run example_config early_read_run init_sys)
     = Some (CtlReturned, Alive, [(2, 1), (0, 0), (4, 2), (1000, 2)])"
  "map_option (\<lambda>s. (ctl s, proc s, map (\<lambda>m. (sint (msSinceStart m), cmdStatus m)) (metricStore s)))
      (run example_config late_read_run init_sys)
     = Some (CtlReturned, Alive, [(2, 1), (0, 2), (4, 2), (1000, 2)])"
  by (simp_all add: step_defs example_defs early_read_run_def late_read_run_def)

subsection \<open>Timer ticks\<close>

lemma sint_ms:
  assumes "1000 * n < (2::nat) ^ 63"
  shows "sint (1000 * of_nat n :: 64 word) = 1000 * int n"
proof -
  have "(1000 * of_nat n :: 64 word) = word_of_nat (1000 * n)" by simp
  then have "sint (1000 * of_nat n :: 64 word) = signed_take_bit 63 (int (1000 * n))"
    by (simp only: signed_of_nat) simp
  also have "\<dots> = int (1000 * n)"
  proof (rule signed_take_bit_int_eq_self)
    show "- (2 ^ 63) \<le> int (1000 * n)" by simp
    from assms have "int (1000 * n) < int (2 ^ 63)" by (simp only: of_nat_less_iff)
    then show "int (1000 * n) < 2 ^ 63" by simp
  qed
  finally show ?thesis by simp
qed

lemma tick_snapshot_effect:
  "loop_tick_collected (Some r) written s =
     (let s1 = s\<lparr>metricStore := metricStore s @
                   [snapshot (fst (loop_read s)) (snd (loop_read s)) (loop_msSinceStart s) r]\<rparr>
      in if proc s \<noteq> Alive then s1
         else if stopGatheringNextIteration s
              then (if written then s1\<lparr>lp := LoopReturned\<rparr> else s1\<lparr>proc := Exited 1\<rparr>)
              else s1\<lparr>lp := LoopSelect\<rparr>)"
  by (simp add: loop_tick_collected_def collectInstantMetrics_append_def Let_def)

text \<open>
  Claim C9. The snapshot of the \<open>k\<close>-th timer tick (\<open>k\<close> is the number of ticks the loop
  has received when it appends the snapshot, this tick included) has
  \<open>msSinceStart = 1000 * k\<close> and \<open>timestamp = metricsStartTime + 1000 * k\<close> in \<open>int64\<close>
  arithmetic, and \<open>msSinceStart\<close> is the integer \<open>1000 * k\<close> as long as that is below
  \<open>2^63\<close>. Receiving the tick adds 1000 to the counter of the loop and reads no clock:
  the event \<open>Tick\<close> carries nothing, and the reading of the collectors that
  \<open>TickSnapshot\<close> carries does not enter the two fields.
\<close>

theorem tick_snapshot_is_nominal:
  assumes "run cfg es init_sys = Some s"
    and "step cfg (TickSnapshot (Some r) written) s = Some s'"
  shows "1 \<le> count_ticks es
     \<and> metricStore s' = metricStore s @ [last (metricStore s')]
     \<and> msSinceStart (last (metricStore s')) = 1000 * of_nat (count_ticks es)
     \<and> timestamp (last (metricStore s'))
         = metricsStartTime s' + 1000 * of_nat (count_ticks es)
     \<and> metricsStartTime s' = metricsStartTime s
     \<and> (1000 * count_ticks es < 2 ^ 63 \<longrightarrow>
          sint (msSinceStart (last (metricStore s'))) = 1000 * int (count_ticks es))"
proof -
  from assms(2) have al: "proc s = Alive" and l: "lp s = LoopTickCollect"
    by (simp_all split: if_splits)
  from al assms(1) have i: "reach_inv cfg es s" by (rule reach_inv_run [rotated])
  then have ms: "loop_msSinceStart s = 1000 * of_nat (count_ticks es)"
    and 0: "1 \<le> count_ticks es"
    using l by (simp_all add: reach_inv_def count_inv_def)
  from i l have rd: "snd (loop_read s) = metricsStartTime s"
    by (simp add: reach_inv_def ctl_inv_def)
  from assms(2) al l have s': "s' = loop_tick_collected (Some r) written s"
    by simp
  have 1: "metricStore s' = metricStore s @ [last (metricStore s')]"
    and 2: "msSinceStart (last (metricStore s')) = 1000 * of_nat (count_ticks es)"
    and 3: "timestamp (last (metricStore s'))
         = metricsStartTime s' + 1000 * of_nat (count_ticks es)"
    and 4: "metricsStartTime s' = metricsStartTime s"
    unfolding s' tick_snapshot_effect using al ms rd by (simp_all add: Let_def)
  from 2 have 5: "1000 * count_ticks es < 2 ^ 63 \<longrightarrow>
          sint (msSinceStart (last (metricStore s'))) = 1000 * int (count_ticks es)"
    using sint_ms [of "count_ticks es"] by simp
  from 0 1 2 3 4 5 show ?thesis by blast
qed

theorem tick_snapshot_is_nominal_witness:
  "\<exists>s s'. run example_config
            [Begin 5000, LoopFirst, FirstSnapshot (Some example_reading), Tick] init_sys = Some s
     \<and> step example_config (TickSnapshot (Some example_reading) True) s = Some s'
     \<and> msSinceStart (last (metricStore s')) = 1000
     \<and> timestamp (last (metricStore s')) = 6000
     \<and> sint (msSinceStart (last (metricStore s'))) = 1000"
proof -
  let ?es = "[Begin 5000, LoopFirst, FirstSnapshot (Some example_reading), Tick]
    :: unit event list"
  have "run example_config ?es init_sys \<noteq> None"
    by (simp add: step_defs example_defs)
  then obtain s where r: "run example_config ?es init_sys = Some s" by blast
  then have p: "proc s = Alive" "lp s = LoopTickCollect" "metricsStartTime s = 5000"
    by (auto simp: step_defs example_defs)
  then obtain s' where st: "step example_config (TickSnapshot (Some example_reading) True) s = Some s'"
    by simp
  have c: "count_ticks ?es = 1" by (simp add: count_ticks_def)
  from tick_snapshot_is_nominal [OF r st] p c r st show ?thesis by simp
qed

subsection \<open>After the stop request\<close>





subsection \<open>The snapshots of a completed execution\<close>




subsection \<open>The first snapshot and the snapshot after the stop request\<close>



subsection \<open>The annotations\<close>

lemma sint_diff_nonneg:
  fixes a b :: int64
  assumes "0 \<le> sint b" and "sint b \<le> sint a"
  shows "sint (a - b) = sint a - sint b"
proof -
  have "sint a < 2 ^ 63" using sint_less [of a] by simp
  with assms have "- (2 ^ 63) \<le> sint a - sint b" and "sint a - sint b < 2 ^ 63"
    by simp_all
  then have "signed_take_bit 63 (sint a - sint b) = sint a - sint b"
    by (rule signed_take_bit_int_eq_self)
  then show ?thesis by (simp add: sint_word_diff)
qed

text \<open>
  Claim C6, as stated, fails. The two times are differences of readings of the wall
  clock (\<open>time.Now().UnixMilli()\<close>, lines 519 and 540, minus
  \<open>realStartTime.UnixMilli()\<close>); these readings are not monotonic. When the clock is
  set back by one second while the child runs, the start annotation has the time 2000
  and the done annotation the time 1000.
\<close>

definition clock_set_back_run :: "unit event list" where
  "clock_set_back_run =
     [Begin 5000, LoopFirst, FirstSnapshot (Some example_reading),
      CmdStart True 7000, StartSnapshot (Some example_reading),
      CmdExit (ExitedWith 0) 6000, ExitSnapshot (Some example_reading),
      Quit, Tick, TickSnapshot (Some example_reading) True, Return]"

theorem clock_set_back_counterexample:
  "map_option
      (\<lambda>s. (ctl s, proc s, map Text (annotationStore s),
            map (\<lambda>a. sint (Time a)) (annotationStore s),
            sint (Time (annotationStore s ! 0)) \<le> sint (Time (annotationStore s ! 1))))
      (run example_config clock_set_back_run init_sys)
     = Some (CtlReturned, Alive, [''Command started'', ''Command done with status 0''],
         [2000, 1000], False)"
  by (simp add: step_defs example_defs clock_set_back_run_def start_annotation_def
      done_annotation_def Itoa_def digit_char_def)

text \<open>
  Claim C6, amended. Once the child has started and exited, in particular when
  \<open>startCommand\<close> has returned, the controller has read the wall clock three times and
  \<open>cmd.Wait()\<close> has returned once, and the annotation store holds exactly two
  annotations: the first with the text \<open>Command started\<close>, the second with the text
  \<open>Command done with status\<close> and the exit code, which is the code \<open>c\<close> of the process
  state that \<open>Wait\<close> has left and \<open>-1\<close> when it has left none. Their times are the
  differences of the second and third reading of the wall clock to the first one. The
  first time is at most the second one when the wall clock has not been set back
  between the readings and the first reading is not before the epoch (which excludes
  an overflow of the difference).
\<close>

theorem two_annotations_in_order:
  assumes "run cfg es init_sys = Some s" and "proc s = Alive"
    and "ctl s = CtlStopping \<or> ctl s = CtlJoin \<or> ctl s = CtlReturned"
  shows "length (clock_readings es) = 3 \<and> length (wait_results es) = 1
     \<and> annotationStore s =
         [start_annotation cfg (clock_readings es ! 1 - clock_readings es ! 0),
          done_annotation cfg (clock_readings es ! 2 - clock_readings es ! 0)
            (ExitCode (wait_results es ! 0))]
     \<and> Text (annotationStore s ! 0) = ''Command started''
     \<and> Text (annotationStore s ! 1)
         = ''Command done with status '' @ Itoa (ExitCode (wait_results es ! 0))
     \<and> (\<forall>c. wait_results es = [ExitedWith c] \<longrightarrow>
           Text (annotationStore s ! 1) = ''Command done with status '' @ Itoa c)
     \<and> (wait_results es = [WaitFailed] \<longrightarrow>
           Text (annotationStore s ! 1) = ''Command done with status '' @ Itoa (- 1))
     \<and> Time (annotationStore s ! 0) = clock_readings es ! 1 - clock_readings es ! 0
     \<and> Time (annotationStore s ! 1) = clock_readings es ! 2 - clock_readings es ! 0
     \<and> (0 \<le> sint (clock_readings es ! 0)
         \<and> sint (clock_readings es ! 0) \<le> sint (clock_readings es ! 1)
         \<and> sint (clock_readings es ! 1) \<le> sint (clock_readings es ! 2) \<longrightarrow>
           sint (Time (annotationStore s ! 0)) \<le> sint (Time (annotationStore s ! 1)))"
proof -
  from assms(1,2) have "reach_inv cfg es s" by (rule reach_inv_run)
  then have "annot_inv cfg es s" by (simp add: reach_inv_def)
  with assms(3) obtain t0 t1 t2 w where c: "clock_readings es = [t0, t1, t2]"
    and w: "wait_results es = [w]"
    and a: "annotationStore s =
      [start_annotation cfg (t1 - t0), done_annotation cfg (t2 - t0) (ExitCode w)]"
    unfolding annot_inv_def by blast
  have "sint (t1 - t0) \<le> sint (t2 - t0)"
    if "0 \<le> sint t0" and "sint t0 \<le> sint t1" and "sint t1 \<le> sint t2"
    using that sint_diff_nonneg [of t0 t1] sint_diff_nonneg [of t0 t2] by simp
  with c w a show ?thesis
    by (auto simp: start_annotation_def done_annotation_def)
qed

text \<open>
  A child that exits with the code 3 after two seconds, under a clock that is not set
  back.
\<close>

definition failing_child_run :: "unit event list" where
  "failing_child_run =
     [Begin 5000, LoopFirst, FirstSnapshot (Some example_reading),
      CmdStart True 5000, StartSnapshot (Some example_reading),
      Tick, TickSnapshot (Some example_reading) True,
      CmdExit (ExitedWith 3) 7000, ExitSnapshot (Some example_reading),
      Quit, Tick, TickSnapshot (Some example_reading) True, Return]"

theorem two_annotations_in_order_witness:
  "\<exists>s. run example_config failing_child_run init_sys = Some s \<and> proc s = Alive
     \<and> ctl s = CtlReturned
     \<and> clock_readings failing_child_run = [5000, 5000, 7000]
     \<and> wait_results failing_child_run = [ExitedWith 3]
     \<and> map Text (annotationStore s) = [''Command started'', ''Command done with status 3'']
     \<and> map (\<lambda>a. sint (Time a)) (annotationStore s) = [0, 2000]"
proof -
  have "run example_config failing_child_run init_sys \<noteq> None"
    by (simp add: step_defs example_defs failing_child_run_def)
  then obtain s where r: "run example_config failing_child_run init_sys = Some s" by blast
  then have p: "proc s = Alive" "ctl s = CtlReturned"
    by (auto simp: step_defs example_defs failing_child_run_def)
  have c: "clock_readings failing_child_run = [5000, 5000, 7000]"
    and w: "wait_results failing_child_run = [ExitedWith 3]"
    by (simp_all add: failing_child_run_def)
  have i: "Itoa 3 = ''3''" by (simp add: Itoa_def digit_char_def)
  from two_annotations_in_order [OF r p(1)] p(2) c w i r p show ?thesis
    by (simp add: start_annotation_def done_annotation_def)
qed

subsection \<open>The result of \<open>cmd.Wait()\<close>\<close>

text \<open>
  Claim C7, as stated, fails: line 537 is \<open>_ = cmd.Wait()\<close>, so no error of \<open>Wait\<close> is
  fatal. When the process could not be waited on, the execution goes on to its end and
  records the exit code \<open>-1\<close>.
\<close>

definition failed_wait_run :: "unit event list" where
  "failed_wait_run =
     [Begin 5000, LoopFirst, FirstSnapshot (Some example_reading),
      CmdStart True 5000, StartSnapshot (Some example_reading),
      CmdExit WaitFailed 5001, ExitSnapshot (Some example_reading), Quit,
      Tick, TickSnapshot (Some example_reading) True, Return]"

theorem failed_wait_counterexample:
  "map_option (\<lambda>s. (proc s, ctl s, map Text (annotationStore s)))
      (run example_config failed_wait_run init_sys)
     = Some (Alive, CtlReturned, [''Command started'', ''Command done with status -1''])"
  by (simp add: step_defs example_defs failed_wait_run_def start_annotation_def
      done_annotation_def Itoa_def digit_char_def)

text \<open>
  Claim C7, amended. The controller stays at \<open>cmd.Wait()\<close> until the child exits
  (neither the stop request nor the return is enabled before, nor between the return of
  \<open>Wait\<close> and the annotation), and whatever \<open>Wait\<close> returns, the execution continues:
  the state becomes \<open>CommandStatusDone\<close> and, once the collectors have returned, the
  annotation records \<open>ProcessState.ExitCode()\<close>, which is \<open>-1\<close> when there is no process
  state.
\<close>

theorem every_wait_error_is_ignored:
  assumes "proc s = Alive" and "ctl s = CtlWaiting"
  shows "step cfg (CmdExit w now) s = Some (ctl_done w now s)
     \<and> proc (ctl_done w now s) = Alive
     \<and> commandState (ctl_done w now s) = CommandStatusDone
     \<and> step cfg Quit (ctl_done w now s) = None
     \<and> step cfg Return (ctl_done w now s) = None
     \<and> run cfg [CmdExit w now, ExitSnapshot (Some r)] s
         = Some (ctl_done_collected cfg (Some r) (ctl_done w now s))
     \<and> proc (ctl_done_collected cfg (Some r) (ctl_done w now s)) = Alive
     \<and> ctl (ctl_done_collected cfg (Some r) (ctl_done w now s)) = CtlStopping
     \<and> commandState (ctl_done_collected cfg (Some r) (ctl_done w now s)) = CommandStatusDone
     \<and> annotationStore (ctl_done_collected cfg (Some r) (ctl_done w now s))
         = annotationStore s @ [done_annotation cfg (now - realStartTime s) (ExitCode w)]
     \<and> ExitCode WaitFailed = - 1
     \<and> step cfg Quit s = None \<and> step cfg Return s = None"
  using assms
  by (simp add: ctl_done_def ctl_done_collected_def collectInstantMetrics_read_def
      collectInstantMetrics_append_def Let_def)

theorem every_wait_error_is_ignored_witness:
  "\<exists>s. run example_config (take 5 failed_wait_run) init_sys = Some s
     \<and> proc s = Alive \<and> ctl s = CtlWaiting
     \<and> run example_config [CmdExit WaitFailed 5001, ExitSnapshot (Some example_reading)] s
         = Some (ctl_done_collected example_config (Some example_reading)
                  (ctl_done WaitFailed 5001 s))
     \<and> proc (ctl_done_collected example_config (Some example_reading)
                  (ctl_done WaitFailed 5001 s)) = Alive
     \<and> ctl (ctl_done_collected example_config (Some example_reading)
                  (ctl_done WaitFailed 5001 s)) = CtlStopping"
proof -
  have "run example_config (take 5 failed_wait_run) init_sys \<noteq> None"
    by (simp add: step_defs example_defs failed_wait_run_def)
  then obtain s where r: "run example_config (take 5 failed_wait_run) init_sys = Some s"
    by blast
  then have p: "proc s = Alive" "ctl s = CtlWaiting"
    by (auto simp: step_defs example_defs failed_wait_run_def)
  from every_wait_error_is_ignored [OF p, of example_config WaitFailed 5001 example_reading]
    r p show ?thesis by blast
qed

subsection \<open>The command state and the flags of the server never go back\<close>

lemma step_commandState:
  "step cfg e s = Some s' \<Longrightarrow>
     commandState s' = commandState s
     \<or> (ctl s = CtlStarting \<and> commandState s' = 1)
     \<or> (ctl s = CtlWaiting \<and> commandState s' = 2)"
proof (cases e)
  case (Begin now)
  assume "step cfg e s = Some s'"
  with Begin show ?thesis by (auto simp: ctl_begin_def split: if_splits)
next
  case LoopFirst
  assume "step cfg e s = Some s'"
  with LoopFirst show ?thesis by (auto simp: loop_first_def Let_def split: if_splits)
next
  case (FirstSnapshot ro)
  assume "step cfg e s = Some s'"
  with FirstSnapshot show ?thesis
    by (cases ro)
       (auto simp: loop_first_collected_def collectInstantMetrics_append_def Let_def
         split: if_splits)
next
  case Tick
  assume "step cfg e s = Some s'"
  with Tick show ?thesis by (auto simp: loop_tick_def Let_def split: if_splits)
next
  case (TickSnapshot ro written)
  assume "step cfg e s = Some s'"
  with TickSnapshot show ?thesis
    by (cases ro)
       (auto simp: loop_tick_collected_def collectInstantMetrics_append_def Let_def
         split: if_splits)
next
  case (CmdStart started now)
  assume "step cfg e s = Some s'"
  with CmdStart show ?thesis
    by (auto simp: ctl_start_def Let_def CommandStatusRunning_def split: if_splits)
next
  case (StartSnapshot ro)
  assume "step cfg e s = Some s'"
  with StartSnapshot show ?thesis
    by (cases ro)
       (auto simp: ctl_start_collected_def collectInstantMetrics_append_def Let_def
         split: if_splits)
next
  case (CmdExit w now)
  assume "step cfg e s = Some s'"
  with CmdExit show ?thesis
    by (auto simp: ctl_done_def Let_def CommandStatusDone_def split: if_splits)
next
  case (ExitSnapshot ro)
  assume "step cfg e s = Some s'"
  with ExitSnapshot show ?thesis
    by (cases ro)
       (auto simp: ctl_done_collected_def collectInstantMetrics_append_def Let_def
         split: if_splits)
next
  case Sigint
  assume "step cfg e s = Some s'"
  with Sigint show ?thesis by (auto simp: sig_forward_def split: if_splits)
next
  case Quit
  assume "step cfg e s = Some s'"
  with Quit show ?thesis by (auto simp: quit_rendezvous_def split: if_splits)
next
  case Return
  assume "step cfg e s = Some s'"
  with Return show ?thesis by (auto split: if_splits)
qed

text \<open>
  Claim C10. In an execution from the initial state, every step leaves \<open>commandState\<close>
  as it is or moves it from \<open>Pending\<close> to \<open>Running\<close> or from \<open>Running\<close> to \<open>Done\<close>; every
  step of the server keeps a flag that is set.
\<close>

theorem state_and_flags_monotone:
  "(run cfg es init_sys = Some s \<and> step cfg e s = Some s' \<longrightarrow>
      commandState s \<le> commandState s'
      \<and> (commandState s' = commandState s
          \<or> (commandState s = CommandStatusPending \<and> commandState s' = CommandStatusRunning)
          \<or> (commandState s = CommandStatusRunning \<and> commandState s' = CommandStatusDone)))
   \<and> (server_step w ev sv = Some (rsp, sv') \<longrightarrow>
      (cmdStarted sv \<longrightarrow> cmdStarted sv') \<and> (cmdFinished sv \<longrightarrow> cmdFinished sv'))"
proof -
  have "commandState s \<le> commandState s'
      \<and> (commandState s' = commandState s
          \<or> (commandState s = CommandStatusPending \<and> commandState s' = CommandStatusRunning)
          \<or> (commandState s = CommandStatusRunning \<and> commandState s' = CommandStatusDone))"
    if r: "run cfg es init_sys = Some s" and st: "step cfg e s = Some s'"
  proof -
    from st have "proc s = Alive" by (rule step_alive)
    with r have "reach_inv cfg es s" by (rule reach_inv_run)
    then have "commandState s = ctl_state (ctl s)"
      by (simp add: reach_inv_def ctl_inv_def)
    with step_commandState [OF st] show ?thesis
      by (auto simp: CommandStatusPending_def CommandStatusRunning_def CommandStatusDone_def)
  qed
  moreover have "(cmdStarted sv \<longrightarrow> cmdStarted sv') \<and> (cmdFinished sv \<longrightarrow> cmdFinished sv')"
    if "server_step w ev sv = Some (rsp, sv')"
    using that by (rule server_step_flags)
  ultimately show ?thesis by blast
qed

theorem state_and_flags_monotone_witness:
  "\<exists>(s :: unit sys) s'. run example_config [Begin 5000] init_sys = Some s
     \<and> step example_config (CmdStart True 5000) s = Some s'
     \<and> commandState s = 0 \<and> commandState s' = 1 \<and> commandState s \<le> commandState s'
     \<and> server_step True GoBegin (snd (handle_start init_server))
         = Some (None, go_begin (snd (handle_start init_server)))
     \<and> cmdStarted (go_begin (snd (handle_start init_server)))"
proof -
  have "run example_config [Begin 5000] (init_sys :: unit sys) \<noteq> None"
    by (simp add: step_defs example_defs)
  then obtain s :: "unit sys" where r: "run example_config [Begin 5000] init_sys = Some s"
    by blast
  then have p: "proc s = Alive" "ctl s = CtlStarting" "commandState s = 0"
    by (auto simp: step_defs example_defs)
  then obtain s' where st: "step example_config (CmdStart True 5000) s = Some s'"
    by simp
  with p have q: "commandState s' = 1"
    by (auto simp: step_defs example_defs Let_def)
  from p q have le: "commandState s \<le> commandState s'" by simp
  have sv: "server_step True GoBegin (snd (handle_start init_server))
         = Some (None, go_begin (snd (handle_start init_server)))"
    by (simp add: server_defs)
  have g: "cmdStarted (go_begin (snd (handle_start init_server)))"
    by (simp add: go_begin_def)
  from state_and_flags_monotone [of example_config "[Begin 5000]" s
      "CmdStart True 5000" s' True GoBegin
      "snd (handle_start init_server)" None "go_begin (snd (handle_start init_server))"]
    r st p q sv le g
  show ?thesis by blast
qed

section \<open>The client role: \<open>syncStartCommand\<close> (main.go, lines 366-387)\<close>

text \<open>
  \<open>startCommand\<close> as a function of the sequence of events of its execution: the
  sequence must take the controller to its return or end the process.
\<close>

definition startCommand :: "config \<Rightarrow> 'f event list \<Rightarrow> 'f sys \<Rightarrow> 'f sys option" where
  "startCommand cfg es s =
     (case run cfg es s of
        None \<Rightarrow> None
      | Some s' \<Rightarrow> if proc s' = Alive \<and> ctl s' \<noteq> CtlReturned then None else Some s')"

text \<open>
  The result of \<open>http.Post\<close>: only its error is inspected, the response is discarded.
\<close>

datatype post_result = PostDone | PostFailed

definition syncStartCommand ::
  "config \<Rightarrow> bool \<Rightarrow> post_result \<Rightarrow> 'f event list \<Rightarrow> post_result \<Rightarrow> 'f sys \<Rightarrow> 'f sys option" where
  "syncStartCommand cfg syncStop startPost es stopPost s =
     (case startPost of
        PostFailed \<Rightarrow> Some (s\<lparr>proc := Exited 1\<rparr>)
      | PostDone \<Rightarrow>
          (case startCommand cfg es s of
             None \<Rightarrow> None
           | Some s' \<Rightarrow>
               if proc s' = Alive \<and> syncStop \<and> stopPost = PostFailed
               then Some (s'\<lparr>proc := Exited 1\<rparr>)
               else Some s'))"

text \<open>
  Claim C8. When the first \<open>http.Post\<close> fails, \<open>syncStartCommand\<close> ends the process
  with status 1 whatever the other inputs are: \<open>startCommand\<close> is not called, so the
  controller is still at its beginning (no child was started), the sampling loop was
  never spawned, both stores are empty, and no further step is enabled.
\<close>

theorem failed_start_post_is_fatal:
  "syncStartCommand cfg syncStop PostFailed es stopPost init_sys
     = Some (init_sys\<lparr>proc := Exited 1\<rparr>)
   \<and> proc (init_sys\<lparr>proc := Exited 1\<rparr> :: 'f sys) = Exited 1
   \<and> ctl (init_sys\<lparr>proc := Exited 1\<rparr> :: 'f sys) = CtlInit
   \<and> lp (init_sys\<lparr>proc := Exited 1\<rparr> :: 'f sys) = LoopIdle
   \<and> metricStore (init_sys\<lparr>proc := Exited 1\<rparr> :: 'f sys) = []
   \<and> annotationStore (init_sys\<lparr>proc := Exited 1\<rparr> :: 'f sys) = []
   \<and> step cfg e (init_sys\<lparr>proc := Exited 1\<rparr> :: 'f sys) = None"
  by (cases e) (simp_all add: syncStartCommand_def init_sys_def)

section \<open>The output serializer\<close>

text \<open>
  \<open>renderLabels\<close> (lines 599-617) and \<open>writeResultToFile\<close> (lines 639-775). The verbs
  \<open>%f\<close> of \<open>fmt.Sprintf\<close> and the string encoding of \<open>json.Marshal\<close> are the parameters
  \<open>fmt_f\<close> and \<open>json_string\<close>. The content written is given for the case that the file
  can be opened and written; \<open>loop_tick_collected\<close> takes the other case from its argument.
\<close>

definition dq :: char where
  "dq = CHR 0x22"

text \<open>\<open>fmt.Sprintf("%s=\"%s\"", key, value)\<close>.\<close>

definition label :: "string \<Rightarrow> string \<Rightarrow> string" where
  "label k v = k @ ''='' @ [dq] @ v @ [dq]"

text \<open>
  The order in which a \<open>range\<close> over a Go map yields its entries is not specified and
  can differ from one \<open>range\<close> to the next: any arrangement of the entries is possible.
\<close>

definition range_order :: "('k \<times> 'v) list \<Rightarrow> ('k \<times> 'v) list \<Rightarrow> bool" where
  "range_order m kvs \<longleftrightarrow> mset kvs = mset m"

text \<open>
  \<open>renderLabels\<close> for the orders \<open>ml\<close> and \<open>el\<close> in which its two loops yield the
  entries of \<open>metricsLabels\<close> and of \<open>extraLabels\<close>; the relation \<open>renderLabels\<close> holds
  for every result the function can return.
\<close>

definition renderLabels_in ::
  "config \<Rightarrow> (string \<times> string) list \<Rightarrow> (string \<times> string) list \<Rightarrow> string" where
  "renderLabels_in cfg ml el =
     Join ([label ''instance'' (instanceName cfg), label ''job'' (jobName cfg),
            label ''role'' (role cfg)]
           @ map (\<lambda>(k, v). label k v) ml @ map (\<lambda>(k, v). label k v) el) '',''"

inductive renderLabels :: "config \<Rightarrow> (string \<times> string) list \<Rightarrow> string \<Rightarrow> bool" where
  renderLabels:
    "range_order metricsLabels ml \<Longrightarrow> range_order (extraLabels cfg) el \<Longrightarrow>
       renderLabels cfg metricsLabels (renderLabels_in cfg ml el)"

text \<open>
  One line of a metric: \<open>fmt.Sprintf(MetricPrefix + name + "{%s} %v %d\n", labels, val,
  timestamp)\<close>, with \<open>val\<close> already formatted.
\<close>

definition MetricPrefix :: string where
  "MetricPrefix = ''statexec_''"

definition metric_line :: "string \<Rightarrow> string \<Rightarrow> string \<Rightarrow> int64 \<Rightarrow> string" where
  "metric_line name labels val ts =
     MetricPrefix @ name @ ''{'' @ labels @ ''} '' @ val @ '' '' @ Itoa (sint ts) @ ''\<newline>''"

text \<open>
  Lines 725-733: for each CPU, the loop over the map \<open>CpuTimePerMode\<close> in some order
  \<open>modes\<close>, and for each mode a call of \<open>renderLabels\<close> on the map with the keys \<open>cpu\<close>
  and \<open>mode\<close>.
\<close>

inductive cpu_mode_lines ::
  "('f \<Rightarrow> string) \<Rightarrow> config \<Rightarrow> string \<Rightarrow> int64 \<Rightarrow> (string \<times> 'f) list \<Rightarrow> string \<Rightarrow> bool"
  for fmt_f cfg c ts where
  cpu_mode_Nil: "cpu_mode_lines fmt_f cfg c ts [] []"
| cpu_mode_Cons:
    "renderLabels cfg [(''cpu'', c), (''mode'', mode)] ls \<Longrightarrow>
     cpu_mode_lines fmt_f cfg c ts modes out \<Longrightarrow>
       cpu_mode_lines fmt_f cfg c ts ((mode, cpuTime) # modes)
         (metric_line ''cpu_seconds_total'' ls (fmt_f cpuTime) ts @ out)"

inductive cpu_lines ::
  "('f \<Rightarrow> string) \<Rightarrow> config \<Rightarrow> int64 \<Rightarrow> 'f CpuMetrics list \<Rightarrow> string \<Rightarrow> bool"
  for fmt_f cfg ts where
  cpu_Nil: "cpu_lines fmt_f cfg ts [] []"
| cpu_Cons:
    "range_order (CpuTimePerMode cpuMetric) modes \<Longrightarrow>
     cpu_mode_lines fmt_f cfg (Cpu cpuMetric) ts modes out1 \<Longrightarrow>
     cpu_lines fmt_f cfg ts cpus out2 \<Longrightarrow>
       cpu_lines fmt_f cfg ts (cpuMetric # cpus) (out1 @ out2)"

text \<open>Lines 745-751 and 754-761: the network and disk counters.\<close>

inductive network_lines :: "config \<Rightarrow> int64 \<Rightarrow> NetworkMetrics list \<Rightarrow> string \<Rightarrow> bool"
  for cfg ts where
  network_Nil: "network_lines cfg ts [] []"
| network_Cons:
    "renderLabels cfg [(''interface'', Interface networkMetric)] ls1 \<Longrightarrow>
     renderLabels cfg [(''interface'', Interface networkMetric)] ls2 \<Longrightarrow>
     network_lines cfg ts nets out \<Longrightarrow>
       network_lines cfg ts (networkMetric # nets)
         (metric_line ''network_sent_bytes_total'' ls1
            (Itoa (uint (SentTotalBytes networkMetric))) ts
          @ metric_line ''network_received_bytes_total'' ls2
            (Itoa (uint (RecvTotalBytes networkMetric))) ts
          @ out)"

inductive disk_lines :: "config \<Rightarrow> int64 \<Rightarrow> DiskMetrics list \<Rightarrow> string \<Rightarrow> bool"
  for cfg ts where
  disk_Nil: "disk_lines cfg ts [] []"
| disk_Cons:
    "renderLabels cfg [(''disk'', Device diskMetric)] renderedLabels \<Longrightarrow>
     disk_lines cfg ts disks out \<Longrightarrow>
       disk_lines cfg ts (diskMetric # disks)
         (metric_line ''disk_read_bytes_total'' renderedLabels
            (Itoa (uint (ReadBytesTotal diskMetric))) ts
          @ metric_line ''disk_write_bytes_total'' renderedLabels
            (Itoa (uint (WriteBytesTotal diskMetric))) ts
          @ out)"

text \<open>Lines 736-742 and 764-765: the lines with the default labels.\<close>

definition memory_lines :: "('f \<Rightarrow> string) \<Rightarrow> string \<Rightarrow> 'f MemoryMetrics \<Rightarrow> int64 \<Rightarrow> string" where
  "memory_lines fmt_f defaultLabels mem ts =
     metric_line ''memory_total_bytes'' defaultLabels (Itoa (uint (Total mem))) ts
     @ metric_line ''memory_available_bytes'' defaultLabels (Itoa (uint (Available mem))) ts
     @ metric_line ''memory_used_bytes'' defaultLabels (Itoa (uint (Used mem))) ts
     @ metric_line ''memory_free_bytes'' defaultLabels (Itoa (uint (Free mem))) ts
     @ metric_line ''memory_buffers_bytes'' defaultLabels (Itoa (uint (Buffers mem))) ts
     @ metric_line ''memory_cached_bytes'' defaultLabels (Itoa (uint (Cached mem))) ts
     @ metric_line ''memory_used_percent'' defaultLabels (fmt_f (UsedPercent mem)) ts"

definition self_lines :: "string \<Rightarrow> 'f InstantMetric \<Rightarrow> string" where
  "self_lines defaultLabels metric =
     metric_line ''statexec_time_since_start_ms'' defaultLabels
       (Itoa (sint (msSinceStart metric))) (timestamp metric)
     @ metric_line ''metric_collect_duration_ms'' defaultLabels
       (Itoa (sint (collectDuration metric))) (timestamp metric)"

text \<open>
  Lines 718-772: the buffer written for one snapshot, and the buffers of the whole
  store in the order of the store.
\<close>

inductive metric_buffer ::
  "('f \<Rightarrow> string) \<Rightarrow> config \<Rightarrow> string \<Rightarrow> 'f InstantMetric \<Rightarrow> string \<Rightarrow> bool" where
  metric_buffer:
    "cpu_lines fmt_f cfg (timestamp metric) (cpu metric) cpuOut \<Longrightarrow>
     network_lines cfg (timestamp metric) (network metric) netOut \<Longrightarrow>
     disk_lines cfg (timestamp metric) (disk metric) diskOut \<Longrightarrow>
       metric_buffer fmt_f cfg defaultLabels metric
         (metric_line ''command_status'' defaultLabels (Itoa (cmdStatus metric))
            (timestamp metric)
          @ cpuOut
          @ memory_lines fmt_f defaultLabels (memory metric) (timestamp metric)
          @ netOut @ diskOut
          @ self_lines defaultLabels metric)"

inductive metric_buffers ::
  "('f \<Rightarrow> string) \<Rightarrow> config \<Rightarrow> string \<Rightarrow> 'f InstantMetric list \<Rightarrow> string \<Rightarrow> bool"
  for fmt_f cfg defaultLabels where
  buffers_Nil: "metric_buffers fmt_f cfg defaultLabels [] []"
| buffers_Cons:
    "metric_buffer fmt_f cfg defaultLabels metric out1 \<Longrightarrow>
     metric_buffers fmt_f cfg defaultLabels metrics out2 \<Longrightarrow>
       metric_buffers fmt_f cfg defaultLabels (metric # metrics) (out1 @ out2)"

text \<open>Lines 653-693: the comment block, line by line.\<close>

definition unlines :: "string list \<Rightarrow> string" where
  "unlines ls = concat (map (\<lambda>l. l @ ''\<newline>'') ls)"

definition commentBlock :: "config \<Rightarrow> string" where
  "commentBlock cfg =
     unlines
       ['''',
        ''# Collector: blackswift/statexec'',
        ''# Version: '' @ version cfg,
        ''# Url: https://github.com/blackswifthosting/statexec/''
          @ (if version cfg \<noteq> ''dev'' then ''tree/'' @ version cfg else ''''),
        '''',
        ''# HELP statexec_command_status Status of the command (0: pending, 1: running, 2: done)'',
        ''# TYPE statexec_command_status gauge'',
        ''# HELP statexec_cpu_seconds_total CPU time spent in seconds'',
        ''# TYPE statexec_cpu_seconds_total counter'',
        ''# HELP statexec_memory_total_bytes Total memory in bytes'',
        ''# TYPE statexec_memory_total_bytes gauge'',
        ''# HELP statexec_memory_available_bytes Available memory in bytes'',
        ''# TYPE statexec_memory_available_bytes gauge'',
        ''# HELP statexec_memory_used_bytes Used memory in bytes'',
        ''# TYPE statexec_memory_used_bytes gauge'',
        ''# HELP statexec_memory_free_bytes Free memory in bytes'',
        ''# TYPE statexec_memory_free_bytes gauge'',
        ''# HELP statexec_memory_buffers_bytes Memory buffers in bytes'',
        ''# TYPE statexec_memory_buffers_bytes gauge'',
        ''# HELP statexec_memory_cached_bytes Memory cached in bytes'',
        ''# TYPE statexec_memory_cached_bytes gauge'',
        ''# HELP statexec_memory_used_percent Used memory in percent'',
        ''# TYPE statexec_memory_used_percent gauge'',
        ''# HELP statexec_network_sent_bytes_total Total sent bytes'',
        ''# TYPE statexec_network_sent_bytes_total counter'',
        ''# HELP statexec_network_received_bytes_total Total received bytes'',
        ''# TYPE statexec_network_received_bytes_total counter'',
        ''# HELP statexec_disk_read_bytes_total Total read bytes'',
        ''# TYPE statexec_disk_read_bytes_total counter'',
        ''# HELP statexec_disk_write_bytes_total Total written bytes'',
        ''# TYPE statexec_disk_write_bytes_total counter'',
        ''# HELP statexec_time_since_start_ms Milliseconds since monitoring start'',
        ''# TYPE statexec_time_since_start_ms gauge'',
        ''# HELP statexec_metric_collect_duration_ms Duration of the metric collection in milliseconds'',
        ''# TYPE statexec_metric_collect_duration_ms gauge'',
        '''']"

text \<open>
  Lines 700-711: \<open>json.Marshal\<close> of an annotation writes the four fields in the order
  of the struct (it cannot fail on this type); \<open>Tags\<close> is never nil here.
\<close>

definition json_key :: "string \<Rightarrow> string" where
  "json_key k = [dq] @ k @ [dq] @ '':''"

definition Marshal :: "(string \<Rightarrow> string) \<Rightarrow> GrafanaAnnotation \<Rightarrow> string" where
  "Marshal json_string a =
     ''{'' @ json_key ''time'' @ Itoa (sint (Time a))
     @ '','' @ json_key ''timeEnd'' @ Itoa (sint (TimeEnd a))
     @ '','' @ json_key ''text'' @ json_string (Text a)
     @ '','' @ json_key ''tags'' @ ''['' @ Join (map json_string (Tags a)) '','' @ '']}''"

definition annotationsBuffer :: "(string \<Rightarrow> string) \<Rightarrow> GrafanaAnnotation list \<Rightarrow> string" where
  "annotationsBuffer json_string annotations =
     concat (map (\<lambda>a. ''#grafana-annotation '' @ Marshal json_string a @ ''\<newline>'') annotations)
     @ ''\<newline>''"

text \<open>
  The content of the metrics file: \<open>defaultLabels\<close> is rendered once (line 640), then
  the comment block, the annotations and the buffers are written.
\<close>

inductive writeResultToFile ::
  "('f \<Rightarrow> string) \<Rightarrow> (string \<Rightarrow> string) \<Rightarrow> config \<Rightarrow> GrafanaAnnotation list \<Rightarrow>
   'f InstantMetric list \<Rightarrow> string \<Rightarrow> bool" where
  writeResultToFile:
    "renderLabels cfg [] defaultLabels \<Longrightarrow>
     metric_buffers fmt_f cfg defaultLabels metrics out \<Longrightarrow>
       writeResultToFile fmt_f json_string cfg annotations metrics
         (commentBlock cfg @ annotationsBuffer json_string annotations @ out)"

subsection \<open>Every store has a rendering\<close>

lemma range_order_refl: "range_order m m"
  by (simp add: range_order_def)

lemma renderLabels_canonical: "renderLabels cfg ml (renderLabels_in cfg ml (extraLabels cfg))"
  by (rule renderLabels.intros) (simp_all add: range_order_def)

lemma cpu_mode_lines_total: "\<exists>out. cpu_mode_lines fmt_f cfg c ts modes out"
proof (induction modes)
  case Nil
  show ?case by (blast intro: cpu_mode_Nil)
next
  case (Cons a modes)
  obtain mode t where a: "a = (mode, t)" by (cases a)
  from Cons obtain out where "cpu_mode_lines fmt_f cfg c ts modes out" by blast
  from cpu_mode_Cons [OF renderLabels_canonical this] show ?case
    unfolding a by blast
qed

lemma cpu_lines_total: "\<exists>out. cpu_lines fmt_f cfg ts cpus out"
proof (induction cpus)
  case Nil
  show ?case by (blast intro: cpu_Nil)
next
  case (Cons c cpus)
  from Cons obtain out2 where 2: "cpu_lines fmt_f cfg ts cpus out2" by blast
  obtain out1 where 1: "cpu_mode_lines fmt_f cfg (Cpu c) ts (CpuTimePerMode c) out1"
    using cpu_mode_lines_total by blast
  from cpu_Cons [OF range_order_refl 1 2] show ?case by blast
qed

lemma network_lines_total: "\<exists>out. network_lines cfg ts nets out"
proof (induction nets)
  case Nil
  show ?case by (blast intro: network_Nil)
next
  case (Cons n nets)
  from Cons obtain out where "network_lines cfg ts nets out" by blast
  from network_Cons [OF renderLabels_canonical renderLabels_canonical this] show ?case
    by blast
qed

lemma disk_lines_total: "\<exists>out. disk_lines cfg ts disks out"
proof (induction disks)
  case Nil
  show ?case by (blast intro: disk_Nil)
next
  case (Cons d disks)
  from Cons obtain out where "disk_lines cfg ts disks out" by blast
  from disk_Cons [OF renderLabels_canonical this] show ?case by blast
qed

lemma metric_buffer_total: "\<exists>out. metric_buffer fmt_f cfg dl metric out"
proof -
  obtain c where c: "cpu_lines fmt_f cfg (timestamp metric) (cpu metric) c"
    using cpu_lines_total by blast
  obtain n where n: "network_lines cfg (timestamp metric) (network metric) n"
    using network_lines_total by blast
  obtain d where d: "disk_lines cfg (timestamp metric) (disk metric) d"
    using disk_lines_total by blast
  from metric_buffer.intros [OF c n d] show ?thesis by blast
qed

lemma metric_buffers_total: "\<exists>out. metric_buffers fmt_f cfg dl metrics out"
proof (induction metrics)
  case Nil
  show ?case by (blast intro: buffers_Nil)
next
  case (Cons m metrics)
  from Cons obtain out2 where 2: "metric_buffers fmt_f cfg dl metrics out2" by blast
  obtain out1 where 1: "metric_buffer fmt_f cfg dl m out1"
    using metric_buffer_total by blast
  from buffers_Cons [OF 1 2] show ?case by blast
qed

lemma writeResultToFile_total:
  "\<exists>out. writeResultToFile fmt_f json_string cfg annotations metrics out"
proof -
  obtain out where "metric_buffers fmt_f cfg (renderLabels_in cfg [] (extraLabels cfg)) metrics out"
    using metric_buffers_total by blast
  from writeResultToFile.intros [OF renderLabels_canonical this] show ?thesis by blast
qed

subsection \<open>When the rendering is determined\<close>

lemma range_order_short: "length m \<le> 1 \<Longrightarrow> range_order m kvs \<Longrightarrow> kvs = m"
proof (cases m)
  case Nil
  assume "range_order m kvs"
  with Nil show ?thesis by (simp add: range_order_def)
next
  case (Cons x xs)
  assume "length m \<le> 1" and "range_order m kvs"
  with Cons have "xs = []" and "mset kvs = {#x#}" by (simp_all add: range_order_def)
  with Cons show ?thesis by simp
qed

lemma renderLabels_det:
  assumes "length ml \<le> 1" and "length (extraLabels cfg) \<le> 1"
    and "renderLabels cfg ml a" and "renderLabels cfg ml b"
  shows "a = b"
proof -
  from assms(3) obtain m1 e1 where a: "a = renderLabels_in cfg m1 e1"
    and 1: "range_order ml m1" and 2: "range_order (extraLabels cfg) e1"
    by (auto elim: renderLabels.cases)
  from assms(4) obtain m2 e2 where b: "b = renderLabels_in cfg m2 e2"
    and 3: "range_order ml m2" and 4: "range_order (extraLabels cfg) e2"
    by (auto elim: renderLabels.cases)
  from range_order_short [OF assms(1) 1] range_order_short [OF assms(1) 3]
  have "m1 = m2" by simp
  moreover from range_order_short [OF assms(2) 2] range_order_short [OF assms(2) 4]
  have "e1 = e2" by simp
  ultimately show ?thesis using a b by simp
qed

lemma renderLabels_det1:
  assumes "length (extraLabels cfg) \<le> 1"
    and "renderLabels cfg [kv] a" and "renderLabels cfg [kv] b"
  shows "a = b"
  using renderLabels_det [OF _ assms] by simp

lemma cpu_lines_empty:
  "cpu_lines fmt_f cfg ts cpus out \<Longrightarrow> \<forall>c \<in> set cpus. CpuTimePerMode c = [] \<Longrightarrow> out = []"
proof (induction rule: cpu_lines.induct)
  case cpu_Nil
  show ?case by simp
next
  case (cpu_Cons cpuMetric modes out1 cpus out2)
  from cpu_Cons.prems have "CpuTimePerMode cpuMetric = []" by simp
  with cpu_Cons.hyps(1) have "modes = []" by (simp add: range_order_def)
  with cpu_Cons.hyps(2) have "out1 = []" by (auto elim: cpu_mode_lines.cases)
  with cpu_Cons show ?case by simp
qed

lemma network_lines_det:
  assumes "length (extraLabels cfg) \<le> 1"
  shows "network_lines cfg ts nets a \<Longrightarrow> network_lines cfg ts nets b \<Longrightarrow> a = b"
proof (induction arbitrary: b rule: network_lines.induct)
  case network_Nil
  then show ?case by (auto elim: network_lines.cases)
next
  case (network_Cons networkMetric ls1 ls2 nets out)
  from network_Cons.prems obtain l1 l2 out' where
    b: "b = metric_line ''network_sent_bytes_total'' l1
            (Itoa (uint (SentTotalBytes networkMetric))) ts
          @ metric_line ''network_received_bytes_total'' l2
            (Itoa (uint (RecvTotalBytes networkMetric))) ts
          @ out'"
    and 1: "renderLabels cfg [(''interface'', Interface networkMetric)] l1"
    and 2: "renderLabels cfg [(''interface'', Interface networkMetric)] l2"
    and 3: "network_lines cfg ts nets out'"
    by (auto elim: network_lines.cases)
  from renderLabels_det1 [OF assms network_Cons.hyps(1) 1] have "ls1 = l1" .
  moreover from renderLabels_det1 [OF assms network_Cons.hyps(2) 2] have "ls2 = l2" .
  moreover from network_Cons.IH 3 have "out = out'" by simp
  ultimately show ?case using b by simp
qed

lemma disk_lines_det:
  assumes "length (extraLabels cfg) \<le> 1"
  shows "disk_lines cfg ts disks a \<Longrightarrow> disk_lines cfg ts disks b \<Longrightarrow> a = b"
proof (induction arbitrary: b rule: disk_lines.induct)
  case disk_Nil
  then show ?case by (auto elim: disk_lines.cases)
next
  case (disk_Cons diskMetric renderedLabels disks out)
  from disk_Cons.prems obtain l out' where
    b: "b = metric_line ''disk_read_bytes_total'' l
            (Itoa (uint (ReadBytesTotal diskMetric))) ts
          @ metric_line ''disk_write_bytes_total'' l
            (Itoa (uint (WriteBytesTotal diskMetric))) ts
          @ out'"
    and 1: "renderLabels cfg [(''disk'', Device diskMetric)] l"
    and 3: "disk_lines cfg ts disks out'"
    by (auto elim: disk_lines.cases)
  from renderLabels_det1 [OF assms disk_Cons.hyps(1) 1] have "renderedLabels = l" .
  moreover from disk_Cons.IH 3 have "out = out'" by simp
  ultimately show ?case using b by simp
qed

lemma metric_buffer_det:
  assumes "length (extraLabels cfg) \<le> 1" and "\<forall>c \<in> set (cpu metric). CpuTimePerMode c = []"
    and "metric_buffer fmt_f cfg dl metric a" and "metric_buffer fmt_f cfg dl metric b"
  shows "a = b"
proof -
  from assms(3) obtain c1 n1 d1 where
    a: "a = metric_line ''command_status'' dl (Itoa (cmdStatus metric)) (timestamp metric)
          @ c1 @ memory_lines fmt_f dl (memory metric) (timestamp metric)
          @ n1 @ d1 @ self_lines dl metric"
    and c1: "cpu_lines fmt_f cfg (timestamp metric) (cpu metric) c1"
    and n1: "network_lines cfg (timestamp metric) (network metric) n1"
    and d1: "disk_lines cfg (timestamp metric) (disk metric) d1"
    by (auto elim: metric_buffer.cases)
  from assms(4) obtain c2 n2 d2 where
    b: "b = metric_line ''command_status'' dl (Itoa (cmdStatus metric)) (timestamp metric)
          @ c2 @ memory_lines fmt_f dl (memory metric) (timestamp metric)
          @ n2 @ d2 @ self_lines dl metric"
    and c2: "cpu_lines fmt_f cfg (timestamp metric) (cpu metric) c2"
    and n2: "network_lines cfg (timestamp metric) (network metric) n2"
    and d2: "disk_lines cfg (timestamp metric) (disk metric) d2"
    by (auto elim: metric_buffer.cases)
  from cpu_lines_empty [OF c1 assms(2)] cpu_lines_empty [OF c2 assms(2)]
  have "c1 = c2" by simp
  moreover from network_lines_det [OF assms(1) n1 n2] have "n1 = n2" .
  moreover from disk_lines_det [OF assms(1) d1 d2] have "d1 = d2" .
  ultimately show ?thesis using a b by simp
qed

lemma metric_buffers_det:
  assumes "length (extraLabels cfg) \<le> 1"
  shows "metric_buffers fmt_f cfg dl metrics a \<Longrightarrow> metric_buffers fmt_f cfg dl metrics b \<Longrightarrow>
         \<forall>m \<in> set metrics. \<forall>c \<in> set (cpu m). CpuTimePerMode c = [] \<Longrightarrow> a = b"
proof (induction arbitrary: b rule: metric_buffers.induct)
  case buffers_Nil
  then show ?case by (auto elim: metric_buffers.cases)
next
  case (buffers_Cons metric out1 metrics out2)
  from buffers_Cons.prems(1) obtain o1 o2 where b: "b = o1 @ o2"
    and 1: "metric_buffer fmt_f cfg dl metric o1"
    and 2: "metric_buffers fmt_f cfg dl metrics o2"
    by (auto elim: metric_buffers.cases)
  from buffers_Cons.prems(2) have c: "\<forall>c \<in> set (cpu metric). CpuTimePerMode c = []"
    and cs: "\<forall>m \<in> set metrics. \<forall>c \<in> set (cpu m). CpuTimePerMode c = []"
    by simp_all
  from metric_buffer_det [OF assms c buffers_Cons.hyps(1) 1] have "out1 = o1" .
  moreover from buffers_Cons.IH [OF 2 cs] have "out2 = o2" .
  ultimately show ?case using b by simp
qed

lemma writeResultToFile_det:
  assumes "metrics = [] \<or> (length (extraLabels cfg) \<le> 1
      \<and> (\<forall>m \<in> set metrics. \<forall>c \<in> set (cpu m). CpuTimePerMode c = []))"
    and 1: "writeResultToFile fmt_f json_string cfg annotations metrics out1"
    and 2: "writeResultToFile fmt_f json_string cfg annotations metrics out2"
  shows "out1 = out2"
proof -
  from 1 obtain d1 o1 where
    o1: "out1 = commentBlock cfg @ annotationsBuffer json_string annotations @ o1"
    and l1: "renderLabels cfg [] d1" and m1: "metric_buffers fmt_f cfg d1 metrics o1"
    by (auto elim: writeResultToFile.cases)
  from 2 obtain d2 o2 where
    o2: "out2 = commentBlock cfg @ annotationsBuffer json_string annotations @ o2"
    and l2: "renderLabels cfg [] d2" and m2: "metric_buffers fmt_f cfg d2 metrics o2"
    by (auto elim: writeResultToFile.cases)
  from assms(1) show ?thesis
  proof
    assume "metrics = []"
    with m1 m2 have "o1 = []" and "o2 = []" by (auto elim: metric_buffers.cases)
    with o1 o2 show ?thesis by simp
  next
    assume a: "length (extraLabels cfg) \<le> 1
      \<and> (\<forall>m \<in> set metrics. \<forall>c \<in> set (cpu m). CpuTimePerMode c = [])"
    then have e: "length (extraLabels cfg) \<le> 1"
      and c: "\<forall>m \<in> set metrics. \<forall>c \<in> set (cpu m). CpuTimePerMode c = []"
      by simp_all
    from renderLabels_det [OF _ e l1 l2] have "d1 = d2" by simp
    with metric_buffers_det [OF e m1 _ c] m2 have "o1 = o2" by simp
    with o1 o2 show ?thesis by simp
  qed
qed

subsection \<open>When two renderings differ\<close>

text \<open>
  A line of \<open>cpu_seconds_total\<close> has a label map with the two keys \<open>cpu\<close> and \<open>mode\<close>;
  the two orders of the keys give two different lines.
\<close>

lemma cpu_labels_differ:
  "renderLabels_in cfg [(''cpu'', c), (''mode'', m)] el
     \<noteq> renderLabels_in cfg [(''mode'', m), (''cpu'', c)] el"
  by (simp add: renderLabels_in_def label_def)

lemma cpu_mode_lines_two:
  assumes "modes \<noteq> []"
  shows "\<exists>o1 o2. cpu_mode_lines fmt_f cfg c ts modes o1
     \<and> cpu_mode_lines fmt_f cfg c ts modes o2 \<and> o1 \<noteq> o2"
proof -
  from assms obtain mode t rest where m: "modes = (mode, t) # rest"
    by (cases modes) auto
  obtain r where r: "cpu_mode_lines fmt_f cfg c ts rest r"
    using cpu_mode_lines_total by blast
  let ?l1 = "renderLabels_in cfg [(''cpu'', c), (''mode'', mode)] (extraLabels cfg)"
  let ?l2 = "renderLabels_in cfg [(''mode'', mode), (''cpu'', c)] (extraLabels cfg)"
  have 1: "renderLabels cfg [(''cpu'', c), (''mode'', mode)] ?l1"
    by (rule renderLabels_canonical)
  have 2: "renderLabels cfg [(''cpu'', c), (''mode'', mode)] ?l2"
    by (rule renderLabels.intros) (simp_all add: range_order_def)
  have "metric_line ''cpu_seconds_total'' ?l1 (fmt_f t) ts @ r
      \<noteq> metric_line ''cpu_seconds_total'' ?l2 (fmt_f t) ts @ r"
    using cpu_labels_differ [of cfg c mode "extraLabels cfg"]
    by (simp add: metric_line_def)
  with cpu_mode_Cons [OF 1 r] cpu_mode_Cons [OF 2 r] show ?thesis
    unfolding m by blast
qed

lemma cpu_lines_two:
  assumes "\<exists>c \<in> set cpus. CpuTimePerMode c \<noteq> []"
  shows "\<exists>o1 o2. cpu_lines fmt_f cfg ts cpus o1 \<and> cpu_lines fmt_f cfg ts cpus o2 \<and> o1 \<noteq> o2"
  using assms
proof (induction cpus)
  case Nil
  then show ?case by simp
next
  case (Cons c cpus)
  show ?case
  proof (cases "CpuTimePerMode c = []")
    case False
    from cpu_mode_lines_two [OF False] obtain o1 o2 where
      1: "cpu_mode_lines fmt_f cfg (Cpu c) ts (CpuTimePerMode c) o1"
      and 2: "cpu_mode_lines fmt_f cfg (Cpu c) ts (CpuTimePerMode c) o2" and ne: "o1 \<noteq> o2"
      by blast
    obtain r where r: "cpu_lines fmt_f cfg ts cpus r"
      using cpu_lines_total by blast
    from ne have "o1 @ r \<noteq> o2 @ r" by simp
    with cpu_Cons [OF range_order_refl 1 r] cpu_Cons [OF range_order_refl 2 r]
    show ?thesis by blast
  next
    case True
    with Cons.prems have "\<exists>c \<in> set cpus. CpuTimePerMode c \<noteq> []" by auto
    with Cons.IH obtain r1 r2 where 1: "cpu_lines fmt_f cfg ts cpus r1"
      and 2: "cpu_lines fmt_f cfg ts cpus r2" and ne: "r1 \<noteq> r2"
      by blast
    obtain h where h: "cpu_mode_lines fmt_f cfg (Cpu c) ts (CpuTimePerMode c) h"
      using cpu_mode_lines_total by blast
    from ne have "h @ r1 \<noteq> h @ r2" by simp
    with cpu_Cons [OF range_order_refl h 1] cpu_Cons [OF range_order_refl h 2]
    show ?thesis by blast
  qed
qed

lemma metric_buffer_two:
  assumes "\<exists>c \<in> set (cpu metric). CpuTimePerMode c \<noteq> []"
  shows "\<exists>o1 o2. metric_buffer fmt_f cfg dl metric o1 \<and> metric_buffer fmt_f cfg dl metric o2
     \<and> o1 \<noteq> o2"
proof -
  from cpu_lines_two [OF assms] obtain c1 c2 where
    1: "cpu_lines fmt_f cfg (timestamp metric) (cpu metric) c1"
    and 2: "cpu_lines fmt_f cfg (timestamp metric) (cpu metric) c2" and ne: "c1 \<noteq> c2"
    by blast
  obtain n where n: "network_lines cfg (timestamp metric) (network metric) n"
    using network_lines_total by blast
  obtain d where d: "disk_lines cfg (timestamp metric) (disk metric) d"
    using disk_lines_total by blast
  let ?o = "\<lambda>c. metric_line ''command_status'' dl (Itoa (cmdStatus metric)) (timestamp metric)
          @ c @ memory_lines fmt_f dl (memory metric) (timestamp metric)
          @ n @ d @ self_lines dl metric"
  from ne have "?o c1 \<noteq> ?o c2" by simp
  with metric_buffer.intros [OF 1 n d, of dl] metric_buffer.intros [OF 2 n d, of dl]
  show ?thesis by blast
qed

lemma metric_buffers_two:
  assumes "\<exists>m \<in> set metrics. \<exists>c \<in> set (cpu m). CpuTimePerMode c \<noteq> []"
  shows "\<exists>o1 o2. metric_buffers fmt_f cfg dl metrics o1 \<and> metric_buffers fmt_f cfg dl metrics o2
     \<and> o1 \<noteq> o2"
  using assms
proof (induction metrics)
  case Nil
  then show ?case by simp
next
  case (Cons m metrics)
  show ?case
  proof (cases "\<exists>c \<in> set (cpu m). CpuTimePerMode c \<noteq> []")
    case True
    from metric_buffer_two [OF True] obtain o1 o2 where
      1: "metric_buffer fmt_f cfg dl m o1" and 2: "metric_buffer fmt_f cfg dl m o2"
      and ne: "o1 \<noteq> o2"
      by blast
    obtain r where r: "metric_buffers fmt_f cfg dl metrics r"
      using metric_buffers_total by blast
    from ne have "o1 @ r \<noteq> o2 @ r" by simp
    with buffers_Cons [OF 1 r] buffers_Cons [OF 2 r] show ?thesis by blast
  next
    case False
    with Cons.prems have "\<exists>m \<in> set metrics. \<exists>c \<in> set (cpu m). CpuTimePerMode c \<noteq> []"
      by auto
    with Cons.IH obtain r1 r2 where 1: "metric_buffers fmt_f cfg dl metrics r1"
      and 2: "metric_buffers fmt_f cfg dl metrics r2" and ne: "r1 \<noteq> r2"
      by blast
    obtain h where h: "metric_buffer fmt_f cfg dl m h"
      using metric_buffer_total by blast
    from ne have "h @ r1 \<noteq> h @ r2" by simp
    with buffers_Cons [OF h 1] buffers_Cons [OF h 2] show ?thesis by blast
  qed
qed

lemma writeResultToFile_two_cpu:
  assumes "\<exists>m \<in> set metrics. \<exists>c \<in> set (cpu m). CpuTimePerMode c \<noteq> []"
  shows "\<exists>out1 out2. writeResultToFile fmt_f json_string cfg annotations metrics out1
     \<and> writeResultToFile fmt_f json_string cfg annotations metrics out2 \<and> out1 \<noteq> out2"
proof -
  let ?d = "renderLabels_in cfg [] (extraLabels cfg)"
  from metric_buffers_two [OF assms] obtain o1 o2 where
    1: "metric_buffers fmt_f cfg ?d metrics o1" and 2: "metric_buffers fmt_f cfg ?d metrics o2"
    and ne: "o1 \<noteq> o2"
    by blast
  from ne have "commentBlock cfg @ annotationsBuffer json_string annotations @ o1
      \<noteq> commentBlock cfg @ annotationsBuffer json_string annotations @ o2"
    by simp
  with writeResultToFile.intros [OF renderLabels_canonical 1]
    writeResultToFile.intros [OF renderLabels_canonical 2]
  show ?thesis by blast
qed

text \<open>
  The keys of \<open>extraLabels\<close> are those \<open>addLabel\<close> stores: they are distinct (the keys
  of a map) and hold only letters, digits and underscores, so that \<open>safe_key\<close> leaves
  them as they are; in particular they hold no \<open>=\<close>.
\<close>

definition stored_labels :: "(string \<times> string) list \<Rightarrow> bool" where
  "stored_labels m \<longleftrightarrow> distinct (map fst m) \<and> (\<forall>k \<in> set (map fst m). safe_key k = k)"

lemma lower_alnum: "l \<in> set ''abcdefghijklmnopqrstuvwxyz'' \<Longrightarrow> is_alnum l"
  by (auto simp: is_alnum_def)

lemma ToLower_char_cases:
  "ToLower_char c = c \<or> ToLower_char c \<in> set ''abcdefghijklmnopqrstuvwxyz''"
proof (cases "map_of (zip ''ABCDEFGHIJKLMNOPQRSTUVWXYZ'' ''abcdefghijklmnopqrstuvwxyz'') c")
  case None
  then show ?thesis by (simp add: ToLower_char_def)
next
  case (Some l)
  then have "(c, l) \<in> set (zip ''ABCDEFGHIJKLMNOPQRSTUVWXYZ'' ''abcdefghijklmnopqrstuvwxyz'')"
    by (rule map_of_SomeD)
  then have "l \<in> set ''abcdefghijklmnopqrstuvwxyz''"
    by (rule set_zip_rightD)
  with Some show ?thesis
    unfolding ToLower_char_def by (simp only: option.case simp_thms)
qed

lemma ToLower_char_safe:
  "is_alnum c \<or> c = CHR ''_'' \<Longrightarrow> is_alnum (ToLower_char c) \<or> ToLower_char c = CHR ''_''"
  using ToLower_char_cases [of c] lower_alnum [of "ToLower_char c"] by metis

lemma safe_key_fixed: "safe_key k = k \<longleftrightarrow> (\<forall>c \<in> set k. is_alnum c \<or> c = CHR ''_'')"
  by (induction k) (auto simp: safe_key_def)

lemma safe_key_ToLower: "safe_key (ToLower (safe_key key)) = ToLower (safe_key key)"
  unfolding safe_key_fixed
  using ToLower_char_safe by (auto simp: ToLower_def safe_key_def)

lemma stored_labels_Nil: "stored_labels []"
  by (simp add: stored_labels_def)

lemma stored_labels_addLabel:
  assumes "stored_labels m" and "addLabel key v m = Inr m'"
  shows "stored_labels m'"
proof -
  from assms(2) have m': "m' = AList.update (ToLower (safe_key key)) v m"
    by (simp add: addLabel_def Let_def split: if_splits)
  from assms(1) have "distinct (map fst m')"
    unfolding m' by (simp add: stored_labels_def distinct_update)
  moreover have "\<forall>k \<in> set (map fst m'). safe_key k = k"
    using assms(1) safe_key_ToLower [of key]
    unfolding m' by (auto simp: stored_labels_def dom_update)
  ultimately show ?thesis by (simp add: stored_labels_def)
qed

lemma stored_key_no_equals: "safe_key k = k \<Longrightarrow> CHR ''='' \<notin> set k"
  unfolding safe_key_fixed by (auto simp: is_alnum_def)

lemma key_prefix_eq:
  "CHR ''='' \<notin> set a \<Longrightarrow> CHR ''='' \<notin> set b \<Longrightarrow> a @ CHR ''='' # x = b @ CHR ''='' # y \<Longrightarrow> a = b"
proof (induction a arbitrary: b)
  case Nil
  then show ?case by (cases b) auto
next
  case (Cons c a)
  then show ?case by (cases b) auto
qed

lemma renderLabels_in_first_key:
  "\<exists>p. renderLabels_in cfg [] ((k, v) # e # es) @ x
     = label ''instance'' (instanceName cfg) @ '','' @ label ''job'' (jobName cfg) @ '',''
       @ label ''role'' (role cfg) @ '','' @ k @ CHR ''='' # p"
  by (cases e) (simp add: renderLabels_in_def label_def)

lemma default_labels_differ:
  assumes "k1 \<noteq> k2" and "CHR ''='' \<notin> set k1" and "CHR ''='' \<notin> set k2"
  shows "renderLabels_in cfg [] ((k1, v1) # (k2, v2) # es) @ x
     \<noteq> renderLabels_in cfg [] ((k2, v2) # (k1, v1) # es) @ y"
proof
  assume eq: "renderLabels_in cfg [] ((k1, v1) # (k2, v2) # es) @ x
     = renderLabels_in cfg [] ((k2, v2) # (k1, v1) # es) @ y"
  from renderLabels_in_first_key [of cfg k1 v1 "(k2, v2)" es x] obtain p where
    p: "renderLabels_in cfg [] ((k1, v1) # (k2, v2) # es) @ x
     = label ''instance'' (instanceName cfg) @ '','' @ label ''job'' (jobName cfg) @ '',''
       @ label ''role'' (role cfg) @ '','' @ k1 @ CHR ''='' # p"
    by blast
  from renderLabels_in_first_key [of cfg k2 v2 "(k1, v1)" es y] obtain q where
    q: "renderLabels_in cfg [] ((k2, v2) # (k1, v1) # es) @ y
     = label ''instance'' (instanceName cfg) @ '','' @ label ''job'' (jobName cfg) @ '',''
       @ label ''role'' (role cfg) @ '','' @ k2 @ CHR ''='' # q"
    by blast
  from eq have "k1 @ CHR ''='' # p = k2 @ CHR ''='' # q"
    unfolding p q by (simp only: same_append_eq)
  with key_prefix_eq [OF assms(2,3)] assms(1) show False by blast
qed

lemma metric_buffers_prefix:
  assumes "metric_buffers fmt_f cfg dl (m # ms) b"
  shows "\<exists>z. b = MetricPrefix @ ''command_status'' @ ''{'' @ dl @ z"
proof -
  from assms obtain o1 o2 where b: "b = o1 @ o2" and 1: "metric_buffer fmt_f cfg dl m o1"
    by (auto elim: metric_buffers.cases)
  from 1 obtain r where "o1 = metric_line ''command_status'' dl (Itoa (cmdStatus m))
      (timestamp m) @ r"
    by (auto elim: metric_buffer.cases)
  with b show ?thesis by (simp add: metric_line_def)
qed

lemma writeResultToFile_two_labels:
  assumes "stored_labels (extraLabels cfg)" and "2 \<le> length (extraLabels cfg)"
    and "metrics \<noteq> []"
  shows "\<exists>out1 out2. writeResultToFile fmt_f json_string cfg annotations metrics out1
     \<and> writeResultToFile fmt_f json_string cfg annotations metrics out2 \<and> out1 \<noteq> out2"
proof -
  from assms(2) obtain e1 e2 es where "extraLabels cfg = e1 # e2 # es"
    by (cases "extraLabels cfg"; cases "tl (extraLabels cfg)") auto
  then obtain k1 v1 k2 v2 where e: "extraLabels cfg = (k1, v1) # (k2, v2) # es"
    by (cases e1; cases e2) auto
  from assms(1) have k: "k1 \<noteq> k2" "CHR ''='' \<notin> set k1" "CHR ''='' \<notin> set k2"
    unfolding e by (auto simp: stored_labels_def stored_key_no_equals)
  from assms(3) obtain m ms where ms: "metrics = m # ms" by (cases metrics) auto
  let ?d1 = "renderLabels_in cfg [] ((k1, v1) # (k2, v2) # es)"
  let ?d2 = "renderLabels_in cfg [] ((k2, v2) # (k1, v1) # es)"
  have 1: "renderLabels cfg [] ?d1"
    by (rule renderLabels.intros) (simp_all add: range_order_def e)
  have 2: "renderLabels cfg [] ?d2"
    by (rule renderLabels.intros) (simp_all add: range_order_def e)
  obtain o1 where o1: "metric_buffers fmt_f cfg ?d1 metrics o1"
    using metric_buffers_total by blast
  obtain o2 where o2: "metric_buffers fmt_f cfg ?d2 metrics o2"
    using metric_buffers_total by blast
  from metric_buffers_prefix [OF o1 [unfolded ms]] obtain z1 where
    z1: "o1 = MetricPrefix @ ''command_status'' @ ''{'' @ ?d1 @ z1" by blast
  from metric_buffers_prefix [OF o2 [unfolded ms]] obtain z2 where
    z2: "o2 = MetricPrefix @ ''command_status'' @ ''{'' @ ?d2 @ z2" by blast
  from default_labels_differ [OF k, of cfg v1 v2 es z1 z2] have "o1 \<noteq> o2"
    unfolding z1 z2 by simp
  then have "commentBlock cfg @ annotationsBuffer json_string annotations @ o1
      \<noteq> commentBlock cfg @ annotationsBuffer json_string annotations @ o2"
    by simp
  with writeResultToFile.intros [OF 1 o1] writeResultToFile.intros [OF 2 o2]
  show ?thesis by blast
qed

subsection \<open>Two renderings of one store\<close>

text \<open>
  A store with one snapshot that holds one CPU with one mode, rendered with the example
  configuration (no extra labels).
\<close>

definition example_fmt :: "unit \<Rightarrow> string" where
  "example_fmt x = ''0.000000''"

definition example_json :: "string \<Rightarrow> string" where
  "example_json s = [dq] @ s @ [dq]"

definition cpu_snapshot :: "unit InstantMetric" where
  "cpu_snapshot =
     snapshot 1 5000 1000
       (example_reading\<lparr>read_cpu := [\<lparr>Cpu = ''cpu0'', CpuTimePerMode = [(''user'', ())]\<rparr>]\<rparr>)"

lemma writeResultToFile_one_cpu:
  assumes "range_order [(''cpu'', ''cpu0''), (''mode'', ''user'')] ml"
  shows "writeResultToFile example_fmt example_json example_config [] [cpu_snapshot]
     (commentBlock example_config @ annotationsBuffer example_json []
      @ (metric_line ''command_status'' (renderLabels_in example_config [] []) (Itoa 1) 6000
         @ (metric_line ''cpu_seconds_total'' (renderLabels_in example_config ml []) ''0.000000''
              6000 @ [])
         @ memory_lines example_fmt (renderLabels_in example_config [] [])
             (memory cpu_snapshot) 6000
         @ [] @ [] @ self_lines (renderLabels_in example_config [] []) cpu_snapshot)
      @ [])"
proof -
  let ?d = "renderLabels_in example_config [] []"
  have e: "range_order (extraLabels example_config) []"
    by (simp add: range_order_def example_config_def)
  have d: "renderLabels example_config [] ?d"
    by (rule renderLabels.intros [OF _ e]) (simp add: range_order_def)
  have l: "renderLabels example_config [(''cpu'', ''cpu0''), (''mode'', ''user'')]
      (renderLabels_in example_config ml [])"
    by (rule renderLabels.intros [OF assms e])
  let ?c = "\<lparr>Cpu = ''cpu0'', CpuTimePerMode = [(''user'', ())]\<rparr> :: unit CpuMetrics"
  have m: "cpu_mode_lines example_fmt example_config (Cpu ?c) 6000 [(''user'', ())]
      (metric_line ''cpu_seconds_total'' (renderLabels_in example_config ml []) ''0.000000''
         6000 @ [])"
    using cpu_mode_Cons [OF l cpu_mode_Nil, of example_fmt 6000 "()"]
    by (simp add: example_fmt_def)
  have r: "range_order (CpuTimePerMode ?c) [(''user'', ())]"
    by (simp add: range_order_def)
  have c: "cpu_lines example_fmt example_config (timestamp cpu_snapshot) (cpu cpu_snapshot)
      ((metric_line ''cpu_seconds_total'' (renderLabels_in example_config ml []) ''0.000000''
         6000 @ []) @ [])"
    using cpu_Cons [OF r m cpu_Nil]
    by (simp add: cpu_snapshot_def snapshot_def example_reading_def)
  have n: "network_lines example_config (timestamp cpu_snapshot) (network cpu_snapshot) []"
    by (simp add: cpu_snapshot_def snapshot_def example_reading_def network_Nil)
  have k: "disk_lines example_config (timestamp cpu_snapshot) (disk cpu_snapshot) []"
    by (simp add: cpu_snapshot_def snapshot_def example_reading_def disk_Nil)
  have t: "timestamp cpu_snapshot = 6000" "cmdStatus cpu_snapshot = 1"
    by (simp_all add: cpu_snapshot_def)
  from metric_buffer.intros [OF c n k, of ?d]
  have "metric_buffer example_fmt example_config ?d cpu_snapshot
      (metric_line ''command_status'' ?d (Itoa 1) 6000
         @ (metric_line ''cpu_seconds_total'' (renderLabels_in example_config ml []) ''0.000000''
              6000 @ [])
         @ memory_lines example_fmt ?d (memory cpu_snapshot) 6000
         @ [] @ [] @ self_lines ?d cpu_snapshot)"
    by (simp add: t)
  from writeResultToFile.intros [OF d buffers_Cons [OF this buffers_Nil]]
  show ?thesis .
qed

text \<open>
  Claim C2, as stated, fails: the label map of a \<open>cpu_seconds_total\<close> line has the two
  keys \<open>cpu\<close> and \<open>mode\<close>, and \<open>renderLabels\<close> appends them in the order of Go's map
  iteration, so the same store has two different renderings.
\<close>

theorem label_order_counterexample:
  "\<exists>out1 out2.
     writeResultToFile example_fmt example_json example_config [] [cpu_snapshot] out1
     \<and> writeResultToFile example_fmt example_json example_config [] [cpu_snapshot] out2
     \<and> out1 \<noteq> out2"
proof -
  let ?m1 = "[(''cpu'', ''cpu0''), (''mode'', ''user'')]"
  let ?m2 = "[(''mode'', ''user''), (''cpu'', ''cpu0'')]"
  have 1: "range_order ?m1 ?m1" and 2: "range_order ?m1 ?m2"
    by (simp_all add: range_order_def)
  have "renderLabels_in example_config ?m1 [] \<noteq> renderLabels_in example_config ?m2 []"
    by (simp add: renderLabels_in_def label_def example_config_def)
  then have "metric_line ''cpu_seconds_total'' (renderLabels_in example_config ?m1 []) ''0.000000'' 6000
      \<noteq> metric_line ''cpu_seconds_total'' (renderLabels_in example_config ?m2 []) ''0.000000'' 6000"
    by (simp add: metric_line_def renderLabels_in_def label_def example_config_def)
  with writeResultToFile_one_cpu [OF 1] writeResultToFile_one_cpu [OF 2]
  show ?thesis
    by (intro exI conjI) (assumption, assumption, simp)
qed

text \<open>
  Claim C2, amended. The rendering is a relation between the stores and the content
  written: the label maps and \<open>CpuTimePerMode\<close> are ranged over in an order that the
  Go runtime chooses. For every configuration whose extra labels were stored by
  \<open>addLabel\<close>, and all stores: a rendering exists; every rendering begins with the same
  comment block and the same annotation lines; and any two renderings of the same
  stores are byte-identical if and only if the metric store is empty, or at most one
  extra label is configured and no snapshot holds a per-mode CPU time (the lines of
  interfaces and disks, whose label map has one key, are then determined). So two
  renderings that differ exist for every store with a snapshot that holds a per-mode
  CPU time, and for every non-empty store when two or more extra labels are
  configured.
\<close>

theorem rendering_determined_iff:
  assumes "stored_labels (extraLabels cfg)"
  shows "(\<exists>out. writeResultToFile fmt_f json_string cfg annotations metrics out)
     \<and> (\<forall>out. writeResultToFile fmt_f json_string cfg annotations metrics out \<longrightarrow>
          (\<exists>rest. out = commentBlock cfg @ annotationsBuffer json_string annotations @ rest))
     \<and> ((\<forall>out1 out2.
            writeResultToFile fmt_f json_string cfg annotations metrics out1
            \<and> writeResultToFile fmt_f json_string cfg annotations metrics out2 \<longrightarrow>
              out1 = out2)
        \<longleftrightarrow> metrics = []
            \<or> (length (extraLabels cfg) \<le> 1
               \<and> (\<forall>m \<in> set metrics. \<forall>c \<in> set (cpu m). CpuTimePerMode c = [])))
     \<and> ((\<exists>m \<in> set metrics. \<exists>c \<in> set (cpu m). CpuTimePerMode c \<noteq> []) \<longrightarrow>
          (\<exists>out1 out2.
            writeResultToFile fmt_f json_string cfg annotations metrics out1
            \<and> writeResultToFile fmt_f json_string cfg annotations metrics out2
            \<and> out1 \<noteq> out2))
     \<and> (2 \<le> length (extraLabels cfg) \<and> metrics \<noteq> [] \<longrightarrow>
          (\<exists>out1 out2.
            writeResultToFile fmt_f json_string cfg annotations metrics out1
            \<and> writeResultToFile fmt_f json_string cfg annotations metrics out2
            \<and> out1 \<noteq> out2))"
proof -
  let ?W = "writeResultToFile fmt_f json_string cfg annotations metrics"
  let ?det = "metrics = []
            \<or> (length (extraLabels cfg) \<le> 1
               \<and> (\<forall>m \<in> set metrics. \<forall>c \<in> set (cpu m). CpuTimePerMode c = []))"
  have A: "\<exists>out. ?W out" by (rule writeResultToFile_total)
  have B: "\<forall>out. ?W out \<longrightarrow>
          (\<exists>rest. out = commentBlock cfg @ annotationsBuffer json_string annotations @ rest)"
    by (auto elim: writeResultToFile.cases)
  have D: "\<exists>out1 out2. ?W out1 \<and> ?W out2 \<and> out1 \<noteq> out2"
    if "\<exists>m \<in> set metrics. \<exists>c \<in> set (cpu m). CpuTimePerMode c \<noteq> []"
    using that by (rule writeResultToFile_two_cpu)
  have E: "\<exists>out1 out2. ?W out1 \<and> ?W out2 \<and> out1 \<noteq> out2"
    if "2 \<le> length (extraLabels cfg) \<and> metrics \<noteq> []"
    using writeResultToFile_two_labels [OF assms] that by blast
  have C1: "\<forall>out1 out2. ?W out1 \<and> ?W out2 \<longrightarrow> out1 = out2" if ?det
    using writeResultToFile_det [OF that] by blast
  have C2: ?det if u: "\<forall>out1 out2. ?W out1 \<and> ?W out2 \<longrightarrow> out1 = out2"
  proof (rule ccontr)
    assume n: "\<not> ?det"
    then have ne: "metrics \<noteq> []" by simp
    show False
    proof (cases "length (extraLabels cfg) \<le> 1")
      case True
      with n have "\<exists>m \<in> set metrics. \<exists>c \<in> set (cpu m). CpuTimePerMode c \<noteq> []" by blast
      from D [OF this] u show False by blast
    next
      case False
      with ne have "2 \<le> length (extraLabels cfg) \<and> metrics \<noteq> []" by simp
      from E [OF this] u show False by blast
    qed
  qed
  from C1 C2 have C: "(\<forall>out1 out2. ?W out1 \<and> ?W out2 \<longrightarrow> out1 = out2) \<longleftrightarrow> ?det"
    by blast
  from A B C D E show ?thesis by blast
qed

text \<open>
  One extra label, stored by \<open>addLabel\<close>, and a store with one snapshot that holds an
  interface and a disk and no CPU: the rendering is unique. The store with a CPU mode
  above has no unique rendering.
\<close>

definition labelled_config :: config where
  "labelled_config = example_config\<lparr>extraLabels := [(''env'', ''prod'')]\<rparr>"

definition io_snapshot :: "unit InstantMetric" where
  "io_snapshot =
     snapshot 2 5000 2000
       (example_reading
          \<lparr>read_network := [\<lparr>Interface = ''eth0'', SentTotalBytes = 10, RecvTotalBytes = 20\<rparr>],
           read_disk := [\<lparr>Device = ''sda'', ReadBytesTotal = 30, WriteBytesTotal = 40\<rparr>]\<rparr>)"

theorem rendering_determined_iff_witness:
  "addLabel ''Env'' ''prod'' (extraLabels example_config) = Inr (extraLabels labelled_config)
   \<and> stored_labels (extraLabels labelled_config)
   \<and> length (network io_snapshot) = 1 \<and> length (disk io_snapshot) = 1
   \<and> (\<exists>!out. writeResultToFile example_fmt example_json labelled_config
                [start_annotation labelled_config 0] [io_snapshot] out)
   \<and> stored_labels (extraLabels example_config)
   \<and> \<not> (\<exists>!out. writeResultToFile example_fmt example_json example_config [] [cpu_snapshot] out)"
proof -
  have "safe_key ''Env'' = ''Env''" by (simp add: safe_key_def is_alnum_def)
  then have a: "addLabel ''Env'' ''prod'' (extraLabels example_config)
      = Inr (extraLabels labelled_config)"
    by (simp add: addLabel_def forbiddenKeys_def ToLower_def ToLower_char_def
        example_config_def labelled_config_def)
  have s0: "stored_labels (extraLabels example_config)"
    by (simp add: example_config_def stored_labels_Nil)
  from stored_labels_addLabel [OF s0 a] have s: "stored_labels (extraLabels labelled_config)" .
  have l: "length (network io_snapshot) = 1" "length (disk io_snapshot) = 1"
    by (simp_all add: io_snapshot_def snapshot_def)
  have d: "[io_snapshot] = []
      \<or> (length (extraLabels labelled_config) \<le> 1
          \<and> (\<forall>m \<in> set [io_snapshot]. \<forall>c \<in> set (cpu m). CpuTimePerMode c = []))"
    by (simp add: labelled_config_def io_snapshot_def snapshot_def example_reading_def)
  from rendering_determined_iff [OF s, of example_fmt example_json
      "[start_annotation labelled_config 0]" "[io_snapshot]"] d
  have 1: "\<exists>!out. writeResultToFile example_fmt example_json labelled_config
                [start_annotation labelled_config 0] [io_snapshot] out"
    by blast
  have n: "\<exists>m \<in> set [cpu_snapshot]. \<exists>c \<in> set (cpu m). CpuTimePerMode c \<noteq> []"
    by (simp add: cpu_snapshot_def snapshot_def)
  from rendering_determined_iff [OF s0, of example_fmt example_json "[]" "[cpu_snapshot]"] n
  have 2: "\<not> (\<exists>!out. writeResultToFile example_fmt example_json example_config []
      [cpu_snapshot] out)"
    by blast
  from a s l 1 s0 2 show ?thesis by blast
qed

end
